(* ===== verification/Agent_Prelude.thy ===== *)
theory Agent_Prelude
  imports Main "HOL-Library.Word"
begin

section \<open>Prelude: results, UTF-8 text and machine integers\<close>

text \<open>
  Everything the component theories share.

  \<^item> Rust's \<open>Result<T, E>\<close> is the sum \<open>'e + 'a\<close>; \<open>Inl\<close> is \<open>Err\<close> and \<open>Inr\<close> is \<open>Ok\<close>.
  \<^item> A Rust \<open>String\<close> or \<open>&str\<close> is a HOL \<open>string\<close> of UTF-8 bytes, so \<open>length\<close> is
    \<open>str::len\<close>. \<open>chars\<close> groups the bytes into encoded scalar values, which is what
    \<open>str::chars\<close> iterates over; \<open>utf8_valid\<close> is the check of \<open>str::from_utf8\<close>.
  \<^item> \<open>u64\<close>, \<open>u32\<close> and \<open>u8\<close> values whose wrap-around is observable are words; \<open>usize\<close>
    lengths of buffers that are in memory are natural numbers.

  The collection \<open>text_simps\<close> holds the rewrite rules about text.
\<close>

named_theorems text_simps \<open>byte length, character grouping and UTF-8 validity of text\<close>

type_synonym u8 = "8 word"
type_synonym u32 = "32 word"
type_synonym u64 = "64 word"
type_synonym ('e, 'a) result = "'e + 'a"

subsection \<open>Bytes and characters\<close>

abbreviation byte :: "char \<Rightarrow> nat" where
  "byte c \<equiv> of_char c"

text \<open>A continuation byte has the bit pattern \<open>10xxxxxx\<close>.\<close>

definition is_cont :: "char \<Rightarrow> bool" where
  "is_cont c \<longleftrightarrow> 128 \<le> byte c \<and> byte c < 192"

definition is_ascii :: "char \<Rightarrow> bool" where
  "is_ascii c \<longleftrightarrow> byte c < 128"

definition is_ascii_graphic :: "char \<Rightarrow> bool" where
  "is_ascii_graphic c \<longleftrightarrow> 33 \<le> byte c \<and> byte c \<le> 126"

definition is_ascii_control :: "char \<Rightarrow> bool" where
  "is_ascii_control c \<longleftrightarrow> byte c < 32 \<or> byte c = 127"

definition is_ascii_digit :: "char \<Rightarrow> bool" where
  "is_ascii_digit c \<longleftrightarrow> 48 \<le> byte c \<and> byte c \<le> 57"

definition is_ascii_uppercase :: "char \<Rightarrow> bool" where
  "is_ascii_uppercase c \<longleftrightarrow> 65 \<le> byte c \<and> byte c \<le> 90"

definition is_ascii_lowercase :: "char \<Rightarrow> bool" where
  "is_ascii_lowercase c \<longleftrightarrow> 97 \<le> byte c \<and> byte c \<le> 122"

definition is_ascii_alphabetic :: "char \<Rightarrow> bool" where
  "is_ascii_alphabetic c \<longleftrightarrow> is_ascii_uppercase c \<or> is_ascii_lowercase c"

definition is_ascii_alphanumeric :: "char \<Rightarrow> bool" where
  "is_ascii_alphanumeric c \<longleftrightarrow> is_ascii_alphabetic c \<or> is_ascii_digit c"

lemmas ascii_class_defs =
  is_ascii_def is_ascii_graphic_def is_ascii_control_def is_ascii_digit_def
  is_ascii_uppercase_def is_ascii_lowercase_def is_ascii_alphabetic_def
  is_ascii_alphanumeric_def

declare length_dropWhile_le [termination_simp]

text \<open>
  \<open>chars s\<close> is \<open>s.chars()\<close>, each scalar value kept as its encoded bytes: a leading byte
  with the continuation bytes after it.
\<close>

lemma length_dropWhile_Suc [termination_simp]: "length (dropWhile P xs) < Suc (length xs)"
  by (simp add: length_dropWhile_le less_Suc_eq_le)

fun chars :: "string \<Rightarrow> string list" where
  "chars [] = []"
| "chars (c # cs) = (c # takeWhile is_cont cs) # chars (dropWhile is_cont cs)"

text \<open>\<open>str::is_char_boundary\<close>.\<close>

definition is_char_boundary :: "string \<Rightarrow> nat \<Rightarrow> bool" where
  "is_char_boundary s i \<longleftrightarrow>
     (if i = 0 then True
      else if length s \<le> i then i = length s
      else \<not> is_cont (s ! i))"

text \<open>
  One encoded scalar value: the well-formed byte sequences of the Unicode standard
  (no overlong forms, no surrogates, nothing above \<open>U+10FFFF\<close>).
\<close>

definition between :: "nat \<Rightarrow> nat \<Rightarrow> char \<Rightarrow> bool" where
  "between lo hi c \<longleftrightarrow> lo \<le> byte c \<and> byte c \<le> hi"

fun utf8_scalar :: "string \<Rightarrow> bool" where
  "utf8_scalar [a] = is_ascii a"
| "utf8_scalar [a, b] = (between 0xC2 0xDF a \<and> is_cont b)"
| "utf8_scalar [a, b, c] =
     ((byte a = 0xE0 \<and> between 0xA0 0xBF b
       \<or> between 0xE1 0xEC a \<and> is_cont b
       \<or> byte a = 0xED \<and> between 0x80 0x9F b
       \<or> between 0xEE 0xEF a \<and> is_cont b) \<and> is_cont c)"
| "utf8_scalar [a, b, c, d] =
     ((byte a = 0xF0 \<and> between 0x90 0xBF b
       \<or> between 0xF1 0xF3 a \<and> is_cont b
       \<or> byte a = 0xF4 \<and> between 0x80 0x8F b) \<and> is_cont c \<and> is_cont d)"
| "utf8_scalar _ = False"

definition utf8_valid :: "string \<Rightarrow> bool" where
  "utf8_valid s \<longleftrightarrow> list_all utf8_scalar (chars s)"

text \<open>\<open>char::len_utf16\<close> of an encoded scalar value: four bytes need a surrogate pair.\<close>

definition len_utf16 :: "string \<Rightarrow> nat" where
  "len_utf16 ch = (if length ch < 4 then 1 else 2)"

text \<open>
  The loop \<open>while !s.is_char_boundary(end) { end -= 1 }\<close> that the source writes wherever
  it cuts a string at a byte bound.
\<close>

fun floor_boundary :: "string \<Rightarrow> nat \<Rightarrow> nat" where
  "floor_boundary s 0 = 0"
| "floor_boundary s (Suc e) =
     (if is_char_boundary s (Suc e) then Suc e else floor_boundary s e)"

subsection \<open>Facts about text\<close>

lemma concat_chars [simp, text_simps]: "concat (chars s) = s"
  by (induction s rule: chars.induct) simp_all

lemma chars_eq_Nil [simp, text_simps]: "chars s = [] \<longleftrightarrow> s = []"
  by (cases s) simp_all

lemma chars_nonempty: "g \<in> set (chars s) \<Longrightarrow> g \<noteq> []"
  by (induction s rule: chars.induct) auto

lemma takeWhile_append_stop:
  assumes "ys = [] \<or> \<not> P (hd ys)"
  shows "takeWhile P (xs @ ys) = takeWhile P xs" and
        "dropWhile P (xs @ ys) = dropWhile P xs @ ys"
proof -
  have ys: "takeWhile P ys = []" "dropWhile P ys = ys"
    using assms by (cases ys; simp)+
  show "takeWhile P (xs @ ys) = takeWhile P xs"
    by (induction xs) (auto simp: ys)
  show "dropWhile P (xs @ ys) = dropWhile P xs @ ys"
    by (induction xs) (auto simp: ys)
qed

text \<open>Appending text that starts at a boundary appends its characters.\<close>

lemma chars_append:
  "ys = [] \<or> \<not> is_cont (hd ys) \<Longrightarrow> chars (xs @ ys) = chars xs @ chars ys"
  by (induction xs rule: chars.induct) (auto simp: takeWhile_append_stop)

lemma utf8_scalar_lead: "utf8_scalar g \<Longrightarrow> g \<noteq> [] \<and> \<not> is_cont (hd g)"
  by (cases g rule: utf8_scalar.cases) (auto simp: is_cont_def is_ascii_def between_def)

lemma utf8_scalar_length: "utf8_scalar g \<Longrightarrow> length g \<le> 4"
  by (cases g rule: utf8_scalar.cases) auto

lemma utf8_valid_Nil [simp, text_simps]: "utf8_valid []"
  by (simp add: utf8_valid_def)

lemma utf8_valid_lead: "utf8_valid s \<Longrightarrow> s = [] \<or> \<not> is_cont (hd s)"
  by (cases s) (auto simp: utf8_valid_def dest: utf8_scalar_lead)

lemma utf8_valid_append:
  assumes "utf8_valid xs" "utf8_valid ys"
  shows "utf8_valid (xs @ ys)"
  using assms utf8_valid_lead [OF assms(2)] by (auto simp: utf8_valid_def chars_append)

lemma utf8_valid_appendD1:
  "ys = [] \<or> \<not> is_cont (hd ys) \<Longrightarrow> utf8_valid (xs @ ys) \<Longrightarrow> utf8_valid xs"
  by (auto simp: utf8_valid_def chars_append)

lemma utf8_valid_appendD2:
  "ys = [] \<or> \<not> is_cont (hd ys) \<Longrightarrow> utf8_valid (xs @ ys) \<Longrightarrow> utf8_valid ys"
  by (auto simp: utf8_valid_def chars_append)

lemma is_ascii_not_cont: "is_ascii c \<Longrightarrow> \<not> is_cont c"
  by (simp add: is_ascii_def is_cont_def)

lemma chars_ascii [text_simps]: "list_all is_ascii s \<Longrightarrow> chars s = map (\<lambda>c. [c]) s"
proof (induction s)
  case (Cons c s)
  then have "takeWhile is_cont s = []" "dropWhile is_cont s = s"
    by (cases s; simp add: is_ascii_not_cont)+
  with Cons show ?case by simp
qed simp

lemma utf8_valid_ascii [text_simps]: "list_all is_ascii s \<Longrightarrow> utf8_valid s"
  by (simp add: utf8_valid_def chars_ascii list_all_length)

subsection \<open>Cutting at a boundary\<close>

lemma floor_boundary_le: "floor_boundary s e \<le> e"
  by (induction e) auto

lemma floor_boundary_is_boundary: "is_char_boundary s (floor_boundary s e)"
  by (induction e) (auto simp: is_char_boundary_def)

lemma take_boundary_utf8:
  assumes "is_char_boundary s i" "utf8_valid s"
  shows "utf8_valid (take i s)"
proof -
  have "drop i s = [] \<or> \<not> is_cont (hd (drop i s))"
    using assms utf8_valid_lead [OF assms(2)]
    by (auto simp: is_char_boundary_def hd_drop_conv_nth split: if_splits)
  then show ?thesis
    using utf8_valid_appendD1 [of "drop i s" "take i s"] assms(2) by simp
qed

text \<open>The first characters of a text are a prefix of it, cut at a boundary.\<close>

lemma concat_take_chars_utf8: "utf8_valid s \<Longrightarrow> utf8_valid (concat (take n (chars s)))"
proof (induction n)
  case (Suc n)
  show ?case
  proof (cases "n < length (chars s)")
    case True
    then have "utf8_scalar (chars s ! n)"
      using Suc.prems by (simp add: utf8_valid_def list_all_length)
    moreover have "chars (chars s ! n) = [chars s ! n]" if "utf8_scalar (chars s ! n)"
      using that
      by (cases "chars s ! n" rule: utf8_scalar.cases)
         (auto simp: is_cont_def between_def)
    ultimately have "utf8_valid (chars s ! n)" by (simp add: utf8_valid_def)
    with Suc True show ?thesis
      by (simp add: take_Suc_conv_app_nth utf8_valid_append)
  next
    case False
    with Suc show ?thesis by simp
  qed
qed simp

subsection \<open>ASCII case folding\<close>

text \<open>\<open>u8::to_ascii_lowercase\<close> and \<open>str::eq_ignore_ascii_case\<close>.\<close>

definition to_ascii_lowercase :: "char \<Rightarrow> char" where
  "to_ascii_lowercase c = (if is_ascii_uppercase c then char_of (byte c + 32) else c)"

definition eq_ignore_ascii_case :: "string \<Rightarrow> string \<Rightarrow> bool" where
  "eq_ignore_ascii_case a b \<longleftrightarrow> map to_ascii_lowercase a = map to_ascii_lowercase b"

lemma eq_ignore_ascii_case_refl [simp]: "eq_ignore_ascii_case a a"
  by (simp add: eq_ignore_ascii_case_def)

lemma eq_ignore_ascii_case_sym: "eq_ignore_ascii_case a b \<longleftrightarrow> eq_ignore_ascii_case b a"
  by (auto simp: eq_ignore_ascii_case_def)

subsection \<open>Splitting text\<close>

text \<open>\<open>str::split_once\<close>, \<open>str::split\<close> on one ASCII character and \<open>str::strip_prefix\<close> of one.\<close>

fun split_once :: "char \<Rightarrow> string \<Rightarrow> (string \<times> string) option" where
  "split_once c [] = None"
| "split_once c (x # xs) =
     (if x = c then Some ([], xs)
      else map_option (\<lambda>(a, b). (x # a, b)) (split_once c xs))"

fun split_on :: "char \<Rightarrow> string \<Rightarrow> string list" where
  "split_on c [] = [[]]"
| "split_on c (x # xs) =
     (if x = c then [] # split_on c xs
      else (case split_on c xs of [] \<Rightarrow> [[x]] | y # ys \<Rightarrow> (x # y) # ys))"

definition strip_prefix_char :: "char \<Rightarrow> string \<Rightarrow> string" where
  "strip_prefix_char c s = (case s of [] \<Rightarrow> [] | x # xs \<Rightarrow> if x = c then xs else s)"

lemma split_once_append:
  "c \<notin> set a \<Longrightarrow> split_once c (a @ c # b) = Some (a, b)"
  by (induction a) auto

lemma split_once_None: "split_once c s = None \<longleftrightarrow> c \<notin> set s"
  by (induction s) auto

lemma split_once_Some: "split_once c s = Some (a, b) \<longleftrightarrow> s = a @ c # b \<and> c \<notin> set a"
proof
  show "split_once c s = Some (a, b) \<Longrightarrow> s = a @ c # b \<and> c \<notin> set a"
    by (induction s arbitrary: a) (auto split: if_splits)
qed (auto simp: split_once_append)

lemma split_on_not_Nil [simp]: "split_on c s \<noteq> []"
  by (induction s) (auto split: list.splits)

lemma split_on_no_sep: "c \<notin> set s \<Longrightarrow> split_on c s = [s]"
  by (induction s) auto

lemma split_on_append:
  "c \<notin> set a \<Longrightarrow> split_on c (a @ c # b) = a # split_on c b"
  by (induction a) auto

lemma length_strip_prefix_char: "length (strip_prefix_char c s) \<le> length s"
  by (auto simp: strip_prefix_char_def split: list.splits)

subsection \<open>Step machines\<close>

text \<open>
  The contract most components share: a deterministic step over a state, and an invariant
  every step keeps. What every run keeps follows once and for all.
\<close>

locale step_machine =
  fixes step :: "'i \<Rightarrow> 's \<Rightarrow> 's" and inv :: "'s \<Rightarrow> bool"
  assumes step_inv: "inv s \<Longrightarrow> inv (step i s)"
begin

lemma run_inv: "inv s \<Longrightarrow> inv (fold step is s)"
  by (induction "is" arbitrary: s) (auto intro: step_inv)

lemma run_inv_prefix: "inv s \<Longrightarrow> inv (fold step (take n is) s)"
  by (rule run_inv)

end

subsection \<open>Fallible operations on a state\<close>

text \<open>
  A method that may change its state and may fail is a function from the state to its
  \<open>Result\<close> and the state it leaves, on errors too. \<open>and_then m f\<close> is the \<open>?\<close>
  operator: it runs \<open>m\<close>, returns its error, or continues with its value. \<open>wp\<close> is the
  weakest precondition of such an operation for a postcondition on values and one on
  errors; its rewrite rules are collected in \<open>wp_simps\<close>.
\<close>

named_theorems wp_simps \<open>weakest preconditions of the combinators\<close>

type_synonym ('s, 'e, 'a) eff = "'s \<Rightarrow> ('e, 'a) result \<times> 's"

definition ret :: "'a \<Rightarrow> ('s, 'e, 'a) eff" where
  "ret a s = (Inr a, s)"

definition fail :: "'e \<Rightarrow> ('s, 'e, 'a) eff" where
  "fail e s = (Inl e, s)"

definition ensure :: "bool \<Rightarrow> 'e \<Rightarrow> ('s, 'e, unit) eff" where
  "ensure c e s = (if c then (Inr (), s) else (Inl e, s))"

definition reads :: "('s \<Rightarrow> 'a) \<Rightarrow> ('s, 'e, 'a) eff" where
  "reads g s = (Inr (g s), s)"

definition modify :: "('s \<Rightarrow> 's) \<Rightarrow> ('s, 'e, unit) eff" where
  "modify g s = (Inr (), g s)"

definition and_then :: "('s, 'e, 'a) eff \<Rightarrow> ('a \<Rightarrow> ('s, 'e, 'b) eff) \<Rightarrow> ('s, 'e, 'b) eff" where
  "and_then m f s = (case m s of (Inl e, s') \<Rightarrow> (Inl e, s') | (Inr a, s') \<Rightarrow> f a s')"

definition with_state :: "('s \<Rightarrow> ('s, 'e, 'a) eff) \<Rightarrow> ('s, 'e, 'a) eff" where
  "with_state f s = f s s"

definition wp :: "('s, 'e, 'a) eff \<Rightarrow> ('a \<Rightarrow> 's \<Rightarrow> bool) \<Rightarrow> ('e \<Rightarrow> 's \<Rightarrow> bool) \<Rightarrow> 's \<Rightarrow> bool" where
  "wp m Q E s = (case m s of (Inl e, s') \<Rightarrow> E e s' | (Inr a, s') \<Rightarrow> Q a s')"

lemma wp_combinators [wp_simps]:
  "wp (ret a) Q\<^sub>1 E\<^sub>1 s\<^sub>1 = Q\<^sub>1 a s\<^sub>1"
  "wp (fail e) Q\<^sub>2 E\<^sub>2 s\<^sub>2 = E\<^sub>2 e s\<^sub>2"
  "wp (ensure c e') Q\<^sub>3 E\<^sub>3 s\<^sub>3 = (if c then Q\<^sub>3 () s\<^sub>3 else E\<^sub>3 e' s\<^sub>3)"
  "wp (reads g) Q\<^sub>4 E\<^sub>4 s\<^sub>4 = Q\<^sub>4 (g s\<^sub>4) s\<^sub>4"
  "wp (modify h) Q\<^sub>5 E\<^sub>5 s\<^sub>5 = Q\<^sub>5 () (h s\<^sub>5)"
  "wp (with_state k) Q\<^sub>6 E\<^sub>6 s\<^sub>6 = wp (k s\<^sub>6) Q\<^sub>6 E\<^sub>6 s\<^sub>6"
  by (simp_all add: wp_def ret_def fail_def ensure_def reads_def modify_def with_state_def)

lemma wp_and_then [wp_simps]:
  "wp (and_then m f) Q E s = wp m (\<lambda>a. wp (f a) Q E) E s"
  by (auto simp: wp_def and_then_def split: prod.splits sum.splits)

lemma wp_if [wp_simps]:
  "wp (if c then m else m') Q E s = (if c then wp m Q E s else wp m' Q E s)"
  by simp

lemma wp_mono:
  "wp m Q E s \<Longrightarrow> (\<And>a s'. Q a s' \<Longrightarrow> Q' a s') \<Longrightarrow> (\<And>e s'. E e s' \<Longrightarrow> E' e s') \<Longrightarrow> wp m Q' E' s"
  by (auto simp: wp_def split: prod.splits sum.splits)

lemma wp_conj:
  "wp m Q E s \<Longrightarrow> wp m Q' E' s \<Longrightarrow> wp m (\<lambda>a s. Q a s \<and> Q' a s) (\<lambda>e s. E e s \<and> E' e s) s"
  by (auto simp: wp_def split: prod.splits sum.splits)

lemma wp_InrD: "m s = (Inr a, s') \<Longrightarrow> wp m Q E s \<Longrightarrow> Q a s'"
  by (simp add: wp_def)

lemma wp_InlD: "m s = (Inl e, s') \<Longrightarrow> wp m Q E s \<Longrightarrow> E e s'"
  by (simp add: wp_def)

lemma wp_sndD: "wp m (\<lambda>a. P) (\<lambda>e. P) s \<Longrightarrow> P (snd (m s))"
  by (auto simp: wp_def split: prod.splits sum.splits)

lemma wp_trivial: "wp m (\<lambda>a s. True) (\<lambda>e s. True) s"
  by (simp add: wp_def split: prod.splits sum.splits)

lemma and_then_Inr:
  "and_then m f s = (Inr b, s') \<longleftrightarrow> (\<exists>a s1. m s = (Inr a, s1) \<and> f a s1 = (Inr b, s'))"
  by (auto simp: and_then_def split: prod.splits sum.splits)

lemma and_then_Inl:
  "and_then m f s = (Inl e, s') \<longleftrightarrow>
   m s = (Inl e, s') \<or> (\<exists>a s1. m s = (Inr a, s1) \<and> f a s1 = (Inl e, s'))"
  by (auto simp: and_then_def split: prod.splits sum.splits)

lemma combinators_Inr:
  "ret a s\<^sub>1 = (Inr b, s\<^sub>1') \<longleftrightarrow> b = a \<and> s\<^sub>1' = s\<^sub>1"
  "ensure c e s\<^sub>2 = (Inr u, s\<^sub>2') \<longleftrightarrow> c \<and> s\<^sub>2' = s\<^sub>2"
  "reads g s\<^sub>3 = (Inr d, s\<^sub>3') \<longleftrightarrow> d = g s\<^sub>3 \<and> s\<^sub>3' = s\<^sub>3"
  "modify h s\<^sub>4 = (Inr v, s\<^sub>4') \<longleftrightarrow> s\<^sub>4' = h s\<^sub>4"
  "\<not> (fail x s\<^sub>5 = (Inr y, s\<^sub>5'))"
  by (auto simp: ret_def fail_def ensure_def reads_def modify_def)

lemma with_state_eq: "with_state f s = f s s"
  by (simp add: with_state_def)

lemmas eff_Inr = and_then_Inr combinators_Inr

subsection \<open>Saturating arithmetic\<close>

definition sat_add64 :: "u64 \<Rightarrow> u64 \<Rightarrow> u64" where
  "sat_add64 a b = (if unat a + unat b < 2 ^ 64 then a + b else - 1)"

definition sat_sub64 :: "u64 \<Rightarrow> u64 \<Rightarrow> u64" where
  "sat_sub64 a b = (if b \<le> a then a - b else 0)"

lemma unat_max64: "unat (- 1 :: u64) = 2 ^ 64 - 1"
  by (simp add: unsigned_minus_1_eq_mask mask_eq_exp_minus_1)

lemma unat_sat_add64: "unat (sat_add64 a b) = min (2 ^ 64 - 1) (unat a + unat b)"
  by (auto simp: sat_add64_def unat_word_ariths unat_max64)

lemma unat_sat_sub64: "unat (sat_sub64 a b) = unat a - unat b"
  by (auto simp: sat_sub64_def unat_sub word_le_nat_alt)


lemma unat_inc_less:
  fixes x y :: u64
  assumes "x < y"
  shows "unat (x + 1) = unat x + 1" and "x + 1 \<le> y"
proof -
  have "unat x < unat y" "unat y < 2 ^ 64"
    using assms unsigned_less [of y] by (simp_all add: word_less_nat_alt)
  then show "unat (x + 1) = unat x + 1" by (simp add: unat_word_ariths)
  then show "x + 1 \<le> y" using assms by (simp add: word_le_nat_alt word_less_nat_alt)
qed


subsection \<open>Decimal numbers\<close>

text \<open>\<open>Display\<close> of an unsigned integer.\<close>

definition digit :: "nat \<Rightarrow> char" where
  "digit n = ''0123456789'' ! n"

fun show_nat :: "nat \<Rightarrow> string" where
  "show_nat n = (if n < 10 then [digit n] else show_nat (n div 10) @ [digit (n mod 10)])"

declare show_nat.simps [simp del]

definition digit_val :: "char \<Rightarrow> nat" where
  "digit_val c = byte c - 48"

definition nat_of_digits :: "string \<Rightarrow> nat" where
  "nat_of_digits s = fold (\<lambda>c n. 10 * n + digit_val c) s 0"

lemma digit_cases: "n < 10 \<Longrightarrow> n \<in> {0, 1, 2, 3, 4, 5, 6, 7, 8, 9 :: nat}"
  by auto

lemma digit_val_digit: "n < 10 \<Longrightarrow> digit_val (digit n) = n"
  by (drule digit_cases) (elim insertE; simp add: digit_def digit_val_def)

lemma digit_is_digit: "n < 10 \<Longrightarrow> is_ascii_digit (digit n)"
  by (drule digit_cases) (elim insertE; simp add: digit_def is_ascii_digit_def)

lemma nat_of_digits_snoc: "nat_of_digits (s @ [c]) = 10 * nat_of_digits s + digit_val c"
  by (simp add: nat_of_digits_def)

lemma nat_of_digits_show [simp]: "nat_of_digits (show_nat n) = n"
proof (induction n rule: show_nat.induct)
  case (1 n)
  show ?case
  proof (cases "n < 10")
    case True
    then show ?thesis by (simp add: show_nat.simps [of n] nat_of_digits_def digit_val_digit)
  next
    case False
    then show ?thesis
      using 1 by (simp add: show_nat.simps [of n] nat_of_digits_snoc digit_val_digit)
  qed
qed

lemma show_nat_digits: "c \<in> set (show_nat n) \<Longrightarrow> is_ascii_digit c"
proof (induction n rule: show_nat.induct)
  case (1 n)
  then show ?case
    using digit_is_digit by (subst (asm) show_nat.simps) (auto split: if_splits)
qed

lemma show_nat_inject [simp]: "show_nat m = show_nat n \<longleftrightarrow> m = n"
  by (metis nat_of_digits_show)

end
