(* ===== verification/Sse_Framer.thy ===== *)
theory Sse_Framer
  imports Agent_Prelude
begin

section \<open>Incremental EventSource framing (\<open>transport/sse.rs\<close>)\<close>

text \<open>
  \<open>SseFramer\<close> turns a byte stream into the data items of an EventSource stream, one byte
  at a time. The record \<open>sse_framer\<close> has the struct's fields (\<open>prefix\<close>, \<open>line\<close> and
  \<open>data\<close> are \<open>bom_prefix\<close>, \<open>line_buf\<close> and \<open>data_buf\<close>); each operation returns its
  \<open>Result\<close> together with the state it leaves, on errors too. \<open>feed\<close> is the caller's loop
  over the received bytes.

  The specification \<open>sse_spec\<close> reads the whole stream at once: strip the byte order mark,
  cut the text into lines at LF, CR or CRLF, and dispatch the data lines at blank lines.
  The lemmas show that the incremental machine computes it, that its buffers stay within
  the configured limits, and that a discarded item leaves no trace.
\<close>

abbreviation LF :: char where "LF \<equiv> CHR 0x0A"
abbreviation CR :: char where "CR \<equiv> CHR 0x0D"

definition BOM :: string where
  "BOM = [CHR 0xEF, CHR 0xBB, CHR 0xBF]"

datatype frame_error = LineTooLong | DataTooLong | InvalidUtf8

record sse_framer =
  max_line_bytes :: nat
  max_data_bytes :: nat
  bom_prefix :: string
  bom_decided :: bool
  after_cr :: bool
  line_buf :: string
  data_buf :: string
  has_data :: bool

definition sse_new :: "nat \<Rightarrow> nat \<Rightarrow> sse_framer" where
  "sse_new max_line max_data =
     \<lparr>max_line_bytes = max_line, max_data_bytes = max_data, bom_prefix = [],
      bom_decided = False, after_cr = False, line_buf = [], data_buf = [], has_data = False\<rparr>"

type_synonym frame_outcome = "(frame_error, string option) result \<times> sse_framer"

definition process_line :: "sse_framer \<Rightarrow> frame_outcome" where
  "process_line f =
     (let ln = line_buf f; f1 = f\<lparr>line_buf := []\<rparr> in
      if \<not> utf8_valid ln then (Inl InvalidUtf8, f1)
      else if ln = [] then
        (if has_data f1
         then (Inr (Some (data_buf f1)), f1\<lparr>has_data := False, data_buf := []\<rparr>)
         else (Inr None, f1))
      else if hd ln = CHR '':'' then (Inr None, f1)
      else
        (let (field, raw) = (case split_once (CHR '':'') ln of
                               Some p \<Rightarrow> p | None \<Rightarrow> (ln, []));
             val = strip_prefix_char (CHR '' '') raw in
         if field = ''data'' then
           (let added = length val + (if has_data f1 then 1 else 0) in
            if max_data_bytes f1 < length (data_buf f1) + added
            then (Inl DataTooLong, f1)
            else (Inr None,
                  f1\<lparr>data_buf := data_buf f1 @ (if has_data f1 then [LF] else []) @ val,
                     has_data := True\<rparr>))
         else (Inr None, f1)))"

definition process_byte :: "char \<Rightarrow> sse_framer \<Rightarrow> frame_outcome" where
  "process_byte b f =
     (if after_cr f \<and> b = LF then (Inr None, f\<lparr>after_cr := False\<rparr>)
      else
        (let f0 = f\<lparr>after_cr := False\<rparr> in
         if b = CR then process_line (f0\<lparr>after_cr := True\<rparr>)
         else if b = LF then process_line f0
         else if max_line_bytes f0 \<le> length (line_buf f0) then (Inl LineTooLong, f0)
         else (Inr None, f0\<lparr>line_buf := line_buf f0 @ [b]\<rparr>)))"

fun process_pending :: "string \<Rightarrow> sse_framer \<Rightarrow> frame_outcome" where
  "process_pending [] f = (Inr None, f)"
| "process_pending (b # bs) f =
     (case process_byte b f of
        (Inl e, f') \<Rightarrow> (Inl e, f')
      | (Inr (Some r), f') \<Rightarrow> (Inr (Some r), f')
      | (Inr None, f') \<Rightarrow> process_pending bs f')"

definition push_byte :: "char \<Rightarrow> sse_framer \<Rightarrow> frame_outcome" where
  "push_byte b f =
     (if \<not> bom_decided f then
        (let p = bom_prefix f @ [b] in
         if p = BOM then (Inr None, f\<lparr>bom_prefix := [], bom_decided := True\<rparr>)
         else if take (length p) BOM = p then (Inr None, f\<lparr>bom_prefix := p\<rparr>)
         else process_pending p (f\<lparr>bom_prefix := [], bom_decided := True\<rparr>))
      else process_byte b f)"

definition discard_pending :: "sse_framer \<Rightarrow> sse_framer" where
  "discard_pending f = f\<lparr>bom_prefix := [], line_buf := [], data_buf := [], has_data := False\<rparr>"

text \<open>The reader's loop: push every received byte, stop at the first framing error.\<close>

fun feed :: "string \<Rightarrow> sse_framer \<Rightarrow> (frame_error, string list) result \<times> sse_framer" where
  "feed [] f = (Inr [], f)"
| "feed (b # bs) f =
     (case push_byte b f of
        (Inl e, f') \<Rightarrow> (Inl e, f')
      | (Inr r, f') \<Rightarrow>
          (case feed bs f' of
             (Inl e, f'') \<Rightarrow> (Inl e, f'')
           | (Inr rs, f'') \<Rightarrow> (Inr (case r of None \<Rightarrow> rs | Some x \<Rightarrow> x # rs), f'')))"

subsection \<open>What the stream means\<close>

definition strip_bom :: "string \<Rightarrow> string" where
  "strip_bom s = (if take 3 s = BOM then drop 3 s else s)"

text \<open>\<open>skip_lf\<close> drops the LF of a CRLF pair; \<open>next_line\<close> cuts the first complete line.\<close>

definition skip_lf :: "bool \<Rightarrow> string \<Rightarrow> string" where
  "skip_lf cr s = (case s of c # cs \<Rightarrow> if cr \<and> c = LF then cs else s | [] \<Rightarrow> [])"

fun next_line :: "string \<Rightarrow> (string \<times> string) option" where
  "next_line [] = None"
| "next_line (c # cs) =
     (if c = CR then Some ([], skip_lf True cs)
      else if c = LF then Some ([], cs)
      else map_option (\<lambda>(l, r). (c # l, r)) (next_line cs))"

lemma length_skip_lf: "length (skip_lf cr s) \<le> length s"
  by (auto simp: skip_lf_def split: list.splits)

lemma next_line_shorter [termination_simp]:
  "next_line s = Some (l, r) \<Longrightarrow> length r < length s"
proof (induction s arbitrary: l)
  case (Cons c cs)
  then show ?case
    using length_skip_lf [of True cs]
    by (auto split: if_splits simp: less_Suc_eq_le intro: less_imp_le)
qed simp

fun sse_lines :: "string \<Rightarrow> string list" where
  "sse_lines s = (case next_line s of None \<Rightarrow> [] | Some (l, r) \<Rightarrow> l # sse_lines r)"

declare sse_lines.simps [simp del]

definition data_value :: "string \<Rightarrow> string option" where
  "data_value l =
     (if l = ''data'' then Some []
      else if take 5 l = ''data:'' then Some (strip_prefix_char (CHR '' '') (drop 5 l))
      else None)"

fun sse_dispatch :: "string option \<Rightarrow> string list \<Rightarrow> string list" where
  "sse_dispatch pend [] = []"
| "sse_dispatch pend (l # ls) =
     (if l = [] then
        (case pend of None \<Rightarrow> sse_dispatch None ls | Some d \<Rightarrow> d # sse_dispatch None ls)
      else
        (case data_value l of
           None \<Rightarrow> sse_dispatch pend ls
         | Some v \<Rightarrow>
             sse_dispatch (Some (case pend of None \<Rightarrow> v | Some d \<Rightarrow> d @ [LF] @ v)) ls))"

text \<open>
  What the limits accept: valid lines, no line (the unfinished last one included) above
  the line limit, and no accumulated item above the data limit. A stream that is so far a
  proper prefix of the byte order mark is not judged yet.
\<close>

fun data_fits :: "nat \<Rightarrow> string option \<Rightarrow> string list \<Rightarrow> bool" where
  "data_fits md pend [] = True"
| "data_fits md pend (l # ls) =
     (if l = [] then data_fits md None ls
      else
        (case data_value l of
           None \<Rightarrow> data_fits md pend ls
         | Some v \<Rightarrow>
             (let d = (case pend of None \<Rightarrow> v | Some d \<Rightarrow> d @ [LF] @ v) in
              length d \<le> md \<and> data_fits md (Some d) ls)))"

definition sse_accepts :: "nat \<Rightarrow> nat \<Rightarrow> string \<Rightarrow> bool" where
  "sse_accepts ml md s \<longleftrightarrow>
     s \<in> {[], take 1 BOM, take 2 BOM} \<or>
     (\<forall>l \<in> set (sse_lines (strip_bom s)). utf8_valid l) \<and>
     (\<forall>l \<in> set (sse_lines (strip_bom s @ [LF])). length l \<le> ml) \<and>
     data_fits md None (sse_lines (strip_bom s))"

definition sse_spec :: "string \<Rightarrow> string list" where
  "sse_spec s = sse_dispatch None (sse_lines (strip_bom s))"


subsection \<open>Lines and fields\<close>

definition pend :: "sse_framer \<Rightarrow> string option" where
  "pend f = (if has_data f then Some (data_buf f) else None)"

definition sse_inv :: "sse_framer \<Rightarrow> bool" where
  "sse_inv f \<longleftrightarrow>
     length (line_buf f) \<le> max_line_bytes f \<and> length (data_buf f) \<le> max_data_bytes f \<and>
     (has_data f \<or> data_buf f = []) \<and>
     CR \<notin> set (line_buf f) \<and> LF \<notin> set (line_buf f) \<and> (after_cr f \<longrightarrow> line_buf f = []) \<and>
     (if bom_decided f then bom_prefix f = []
      else bom_prefix f \<in> {[], take 1 BOM, take 2 BOM} \<and> line_buf f = [] \<and>
           \<not> has_data f \<and> \<not> after_cr f)"

lemma skip_lf_simps [simp]:
  "skip_lf False s = s" "skip_lf cr [] = []"
  "c \<noteq> LF \<Longrightarrow> skip_lf cr (c # cs) = c # cs" "skip_lf True (LF # cs) = cs"
  by (auto simp: skip_lf_def split: list.splits)

lemma next_line_append:
  "CR \<notin> set l \<Longrightarrow> LF \<notin> set l \<Longrightarrow>
   next_line (l @ s) = map_option (\<lambda>(a, r). (l @ a, r)) (next_line s)"
  by (cases "next_line s"; induction l) auto

lemma sse_lines_partial: "CR \<notin> set l \<Longrightarrow> LF \<notin> set l \<Longrightarrow> sse_lines l = []"
  using next_line_append [of l "[]"] by (simp add: sse_lines.simps)

lemma sse_lines_end:
  assumes "CR \<notin> set l" "LF \<notin> set l"
  shows "sse_lines (l @ LF # s) = l # sse_lines s"
    and "sse_lines (l @ CR # s) = l # sse_lines (skip_lf True s)"
  using assms by (subst sse_lines.simps, simp add: next_line_append)+

lemma data_value_field:
  assumes "ln \<noteq> []" "hd ln \<noteq> CHR '':''"
  shows "data_value ln =
    (let (field, raw) = (case split_once (CHR '':'') ln of Some p \<Rightarrow> p | None \<Rightarrow> (ln, [])) in
     if field = ''data'' then Some (strip_prefix_char (CHR '' '') raw) else None)"
proof (cases "take 5 ln = ''data:''")
  case True
  then have "ln = ''data'' @ CHR '':'' # drop 5 ln"
    by (metis append_Cons append_Nil append_take_drop_id)
  then have "split_once (CHR '':'') ln = Some (''data'', drop 5 ln)"
    by (subst (asm) (1) \<open>ln = _\<close>, subst \<open>ln = _\<close>) (rule split_once_append, simp)
  moreover have "ln \<noteq> ''data''" using True by auto
  ultimately show ?thesis using True by (simp add: data_value_def)
next
  case False
  show ?thesis
  proof (cases "split_once (CHR '':'') ln")
    case None
    then show ?thesis using False by (simp add: data_value_def strip_prefix_char_def)
  next
    case (Some p)
    then obtain a b where p: "p = (a, b)" and ln: "ln = a @ CHR '':'' # b"
      by (cases p) (auto simp: split_once_Some)
    from ln False have "a \<noteq> ''data''" by auto
    moreover from ln have "CHR '':'' \<in> set ln" by simp
    then have "ln \<noteq> ''data''" by auto
    ultimately
    show ?thesis using Some p False by (simp add: data_value_def)
  qed
qed

lemma data_value_comment: "data_value (CHR '':'' # s) = None"
  by (simp add: data_value_def)


subsection \<open>One line, one byte\<close>

lemma process_line_frame:
  "process_line f = (r, f') \<Longrightarrow>
   line_buf f' = [] \<and> after_cr f' = after_cr f \<and> bom_decided f' = bom_decided f \<and>
   bom_prefix f' = bom_prefix f \<and> max_line_bytes f' = max_line_bytes f \<and>
   max_data_bytes f' = max_data_bytes f"
  by (auto simp: process_line_def Let_def split: if_splits prod.splits)

lemma process_line_dispatch:
  assumes "process_line f = (Inr r, f')" "has_data f \<or> data_buf f = []"
  shows "sse_dispatch (pend f) (line_buf f # ls) =
         (case r of None \<Rightarrow> [] | Some x \<Rightarrow> [x]) @ sse_dispatch (pend f') ls"
proof -
  consider (blank) "line_buf f = []"
    | (comment) s where "line_buf f = CHR '':'' # s"
    | (field) "line_buf f \<noteq> []" "hd (line_buf f) \<noteq> CHR '':''"
    by (cases "line_buf f") auto
  then show ?thesis
  proof cases
    case blank
    with assms show ?thesis
      by (auto simp: process_line_def Let_def pend_def split: if_splits)
  next
    case comment
    with assms show ?thesis
      by (auto simp: process_line_def Let_def pend_def data_value_comment split: if_splits)
  next
    case field
    with assms show ?thesis
      by (auto simp: process_line_def Let_def pend_def data_value_field
               split: if_splits prod.splits)
  qed
qed

lemma process_line_inv:
  assumes "process_line (f\<lparr>after_cr := a\<rparr>) = (r, f')" "sse_inv f" "bom_decided f"
  shows "sse_inv f' \<and> bom_decided f'"
  using assms
  by (auto simp: process_line_def sse_inv_def Let_def split: if_splits prod.splits)

lemma process_byte_inv:
  assumes "process_byte b f = (r, f')" "sse_inv f" "bom_decided f"
  shows "sse_inv f' \<and> bom_decided f'"
proof -
  have "sse_inv (f\<lparr>after_cr := False\<rparr>)"
       "b \<notin> {CR, LF} \<Longrightarrow> length (line_buf f) < max_line_bytes f \<Longrightarrow>
        sse_inv (f\<lparr>after_cr := False, line_buf := line_buf f @ [b]\<rparr>)"
    using assms(2,3) by (auto simp: sse_inv_def)
  with assms show ?thesis
    using process_line_inv [where f = f]
    by (auto simp: process_byte_def Let_def split: if_splits)
qed


text \<open>The lines still to come, and the records one more byte adds.\<close>

definition rest_lines :: "sse_framer \<Rightarrow> string \<Rightarrow> string list" where
  "rest_lines f bs = sse_lines (line_buf f @ skip_lf (after_cr f) bs)"

lemma process_byte_dispatch:
  assumes "process_byte b f = (Inr r, f')" "sse_inv f" "bom_decided f"
  shows "sse_dispatch (pend f) (rest_lines f (b # bs)) =
         (case r of None \<Rightarrow> [] | Some x \<Rightarrow> [x]) @ sse_dispatch (pend f') (rest_lines f' bs)"
proof -
  have l: "CR \<notin> set (line_buf f)" "LF \<notin> set (line_buf f)" "has_data f \<or> data_buf f = []"
    "after_cr f \<longrightarrow> line_buf f = []"
    using assms(2) by (auto simp: sse_inv_def)
  have pend_cr: "pend (f\<lparr>after_cr := a\<rparr>) = pend f" for a by (simp add: pend_def)
  consider (eaten) "after_cr f" "b = LF" | (cr) "b = CR"
    | (lf) "b = LF" "\<not> after_cr f" | (plain) "b \<noteq> CR" "b \<noteq> LF"
    by blast
  then show ?thesis
  proof cases
    case eaten
    with assms l show ?thesis by (auto simp: process_byte_def rest_lines_def pend_def)
  next
    case cr
    with assms have pl: "process_line (f\<lparr>after_cr := True\<rparr>) = (Inr r, f')"
      by (simp add: process_byte_def Let_def)
    have "rest_lines f (b # bs) = line_buf f # rest_lines f' bs"
      using cr l process_line_frame [OF pl] by (auto simp: rest_lines_def sse_lines_end)
    then show ?thesis
      using process_line_dispatch [OF pl, of "rest_lines f' bs"] l by (simp add: pend_cr)
  next
    case lf
    with assms have pl: "process_line (f\<lparr>after_cr := False\<rparr>) = (Inr r, f')"
      by (simp add: process_byte_def Let_def)
    have "rest_lines f (b # bs) = line_buf f # rest_lines f' bs"
      using lf l process_line_frame [OF pl] by (auto simp: rest_lines_def sse_lines_end)
    then show ?thesis
      using process_line_dispatch [OF pl, of "rest_lines f' bs"] l by (simp add: pend_cr)
  next
    case plain
    with assms(1) show ?thesis
      by (auto simp: process_byte_def Let_def rest_lines_def pend_def split: if_splits)
  qed
qed

lemma feed_decided:
  "feed bs f = (Inr rs, f') \<Longrightarrow> sse_inv f \<Longrightarrow> bom_decided f \<Longrightarrow>
   rs = sse_dispatch (pend f) (rest_lines f bs)"
proof (induction bs arbitrary: f rs)
  case Nil
  then have "rest_lines f [] = []"
    by (auto simp: rest_lines_def sse_inv_def intro: sse_lines_partial)
  with Nil show ?case by simp
next
  case (Cons b bs)
  from Cons.prems obtain r g rs' where pb: "process_byte b f = (Inr r, g)"
    and fd: "feed bs g = (Inr rs', f')" and rs: "rs = (case r of None \<Rightarrow> rs' | Some x \<Rightarrow> x # rs')"
    by (auto simp: push_byte_def split: prod.splits sum.splits)
  from process_byte_inv [OF pb] Cons.prems have g: "sse_inv g" "bom_decided g" by blast+
  have "sse_dispatch (pend f) (rest_lines f (b # bs)) = (case r of None \<Rightarrow> [] | Some x \<Rightarrow> [x]) @ rs'"
    using process_byte_dispatch [OF pb Cons.prems(2,3), of bs] Cons.IH [OF fd g] by simp
  then show ?case using rs by (cases r) simp_all
qed


subsection \<open>Which streams are accepted\<close>

definition stream_ok :: "sse_framer \<Rightarrow> string \<Rightarrow> bool" where
  "stream_ok f bs \<longleftrightarrow>
     (\<forall>l \<in> set (rest_lines f bs). utf8_valid l) \<and>
     (\<forall>l \<in> set (rest_lines f (bs @ [LF])). length l \<le> max_line_bytes f) \<and>
     data_fits (max_data_bytes f) (pend f) (rest_lines f bs)"

lemma ex_Inr_iff:
  "(\<exists>r s. p = (Inr r, s) \<and> P s) \<longleftrightarrow> (case fst p of Inl e \<Rightarrow> False | Inr r \<Rightarrow> P (snd p))"
  by (cases p; cases "fst p") auto

lemma process_line_ok:
  assumes "has_data f \<or> data_buf f = []"
  shows "(\<exists>r f'. process_line f = (Inr r, f') \<and> data_fits (max_data_bytes f) (pend f') ls) \<longleftrightarrow>
         utf8_valid (line_buf f) \<and> data_fits (max_data_bytes f) (pend f) (line_buf f # ls)"
proof -
  consider (blank) "line_buf f = []"
    | (comment) s where "line_buf f = CHR '':'' # s"
    | (field) "line_buf f \<noteq> []" "hd (line_buf f) \<noteq> CHR '':''"
    by (cases "line_buf f") auto
  then show ?thesis
  proof cases
    case blank
    then show ?thesis by (simp add: ex_Inr_iff process_line_def pend_def Let_def)
  next
    case comment
    then show ?thesis
      by (simp add: ex_Inr_iff process_line_def pend_def Let_def data_value_comment)
  next
    case field
    obtain fl raw where sp:
      "(case split_once (CHR '':'') (line_buf f) of Some p \<Rightarrow> p | None \<Rightarrow> (line_buf f, [])) = (fl, raw)"
      by fastforce
    show ?thesis using assms field
      by (simp add: ex_Inr_iff process_line_def Let_def pend_def data_value_field sp
               del: not_less) (auto simp: not_less)
  qed
qed

lemma next_line_total: "\<exists>a r. next_line (s @ [LF]) = Some (a, r)"
  by (induction s) auto

lemma sse_lines_head:
  assumes "CR \<notin> set l" "LF \<notin> set l"
  shows "\<exists>a ls. sse_lines (l @ s @ [LF]) = (l @ a) # ls"
proof -
  obtain a r where "next_line (s @ [LF]) = Some (a, r)" using next_line_total by blast
  then have "next_line (l @ s @ [LF]) = Some (l @ a, r)" using assms by (simp add: next_line_append)
  then show ?thesis by (subst sse_lines.simps) simp
qed

text \<open>Ending a line, by CR or LF, leaves exactly the lines of the remaining bytes.\<close>

lemma stream_ok_line_end:
  assumes inv: "sse_inv f"
    and rest: "\<And>s. rest_lines f (b # s) = line_buf f # sse_lines (skip_lf a s)"
  shows "stream_ok f (b # bs) \<longleftrightarrow>
         (\<exists>r f'. process_line (f\<lparr>after_cr := a\<rparr>) = (Inr r, f') \<and> stream_ok f' bs)"
proof -
  let ?g = "f\<lparr>after_cr := a\<rparr>" and ?R = "\<lambda>s. sse_lines (skip_lf a s)"
  have rl: "rest_lines f' s = ?R s" "max_line_bytes f' = max_line_bytes f"
    "max_data_bytes f' = max_data_bytes f" if "process_line ?g = (Inr r, f')" for r f' s
    using process_line_frame [OF that] by (simp_all add: rest_lines_def)
  have ok: "stream_ok f' bs \<longleftrightarrow> (\<forall>l \<in> set (?R bs). utf8_valid l) \<and>
      (\<forall>l \<in> set (?R (bs @ [LF])). length l \<le> max_line_bytes f) \<and>
      data_fits (max_data_bytes f) (pend f') (?R bs)" if "process_line ?g = (Inr r, f')" for r f'
    using rl [OF that] by (simp add: stream_ok_def)
  have "stream_ok f (b # bs) \<longleftrightarrow>
      (\<forall>l \<in> set (?R bs). utf8_valid l) \<and> (\<forall>l \<in> set (?R (bs @ [LF])). length l \<le> max_line_bytes f) \<and>
      utf8_valid (line_buf ?g) \<and> data_fits (max_data_bytes ?g) (pend ?g) (line_buf ?g # ?R bs)"
    using inv rest [of bs] rest [of "bs @ [LF]"]
    by (auto simp: stream_ok_def sse_inv_def pend_def simp del: data_fits.simps)
  also have "\<dots> \<longleftrightarrow> (\<forall>l \<in> set (?R bs). utf8_valid l) \<and>
      (\<forall>l \<in> set (?R (bs @ [LF])). length l \<le> max_line_bytes f) \<and>
      (\<exists>r f'. process_line ?g = (Inr r, f') \<and> data_fits (max_data_bytes f) (pend f') (?R bs))"
    using process_line_ok [of ?g "?R bs"] inv by (simp add: sse_inv_def)
  also have "\<dots> \<longleftrightarrow> (\<exists>r f'. process_line ?g = (Inr r, f') \<and> stream_ok f' bs)"
    using ok by blast
  finally show ?thesis .
qed

lemma stream_ok_step:
  assumes inv: "sse_inv f" and dec: "bom_decided f"
  shows "stream_ok f (b # bs) \<longleftrightarrow> (\<exists>r f'. process_byte b f = (Inr r, f') \<and> stream_ok f' bs)"
proof -
  have l: "CR \<notin> set (line_buf f)" "LF \<notin> set (line_buf f)" "after_cr f \<longrightarrow> line_buf f = []"
    using inv by (auto simp: sse_inv_def)
  consider (eaten) "after_cr f" "b = LF" | (cr) "b = CR"
    | (lf) "b = LF" "\<not> after_cr f" | (full) "b \<noteq> CR" "b \<noteq> LF" "max_line_bytes f \<le> length (line_buf f)"
    | (plain) "b \<noteq> CR" "b \<noteq> LF" "length (line_buf f) < max_line_bytes f"
    by (metis not_le)
  then show ?thesis
  proof cases
    case eaten
    then show ?thesis
      by (simp add: process_byte_def stream_ok_def rest_lines_def pend_def)
  next
    case cr
    have "rest_lines f (b # s) = line_buf f # sse_lines (skip_lf True s)" for s
      using cr l by (auto simp: rest_lines_def sse_lines_end)
    from stream_ok_line_end [OF inv this] cr show ?thesis by (simp add: process_byte_def Let_def)
  next
    case lf
    have "rest_lines f (b # s) = line_buf f # sse_lines (skip_lf False s)" for s
      using lf l by (auto simp: rest_lines_def sse_lines_end)
    from stream_ok_line_end [OF inv this] lf show ?thesis by (simp add: process_byte_def Let_def)
  next
    case full
    obtain a ls where "sse_lines ((line_buf f @ [b]) @ bs @ [LF]) = ((line_buf f @ [b]) @ a) # ls"
      using sse_lines_head [of "line_buf f @ [b]" bs] full l by auto
    then have "rest_lines f ((b # bs) @ [LF]) = (line_buf f @ b # a) # ls"
      using full by (simp add: rest_lines_def)
    then have "\<not> stream_ok f (b # bs)" using full by (simp add: stream_ok_def)
    then show ?thesis using full by (simp add: process_byte_def)
  next
    case plain
    then show ?thesis
      by (simp add: process_byte_def stream_ok_def rest_lines_def pend_def Let_def)
  qed
qed

lemma feed_accepts:
  "sse_inv f \<Longrightarrow> bom_decided f \<Longrightarrow> (\<exists>rs f'. feed bs f = (Inr rs, f')) \<longleftrightarrow> stream_ok f bs"
proof (induction bs arbitrary: f)
  case Nil
  have "rest_lines f [] = []"
    using Nil by (auto simp: rest_lines_def sse_inv_def intro: sse_lines_partial)
  moreover have "rest_lines f [LF] = (if after_cr f then [] else [line_buf f])"
    using Nil sse_lines_end(1) [of "line_buf f" "[]"] sse_lines_partial [of "[]"]
    by (auto simp: rest_lines_def sse_inv_def)
  ultimately show ?case using Nil by (simp add: stream_ok_def sse_inv_def)
next
  case (Cons b bs)
  have "(\<exists>rs f'. feed (b # bs) f = (Inr rs, f')) \<longleftrightarrow>
        (\<exists>r g. process_byte b f = (Inr r, g) \<and> (\<exists>rs f'. feed bs g = (Inr rs, f')))"
    using Cons.prems by (auto simp: push_byte_def split: prod.splits sum.splits)
  also have "\<dots> \<longleftrightarrow> (\<exists>r g. process_byte b f = (Inr r, g) \<and> stream_ok g bs)"
    using Cons.IH process_byte_inv Cons.prems by blast
  also have "\<dots> \<longleftrightarrow> stream_ok f (b # bs)"
    using stream_ok_step Cons.prems by blast
  finally show ?case .
qed


subsection \<open>The byte order mark\<close>

lemma process_byte_frame:
  "process_byte b f = (r, f') \<Longrightarrow>
   bom_decided f' = bom_decided f \<and> bom_prefix f' = bom_prefix f \<and>
   max_line_bytes f' = max_line_bytes f \<and> max_data_bytes f' = max_data_bytes f"
  using process_line_frame [of "f\<lparr>after_cr := True\<rparr>" r f'] process_line_frame [of "f\<lparr>after_cr := False\<rparr>" r f']
  by (auto simp: process_byte_def Let_def split: if_splits)

lemma process_byte_plain:
  "b \<noteq> CR \<Longrightarrow> b \<noteq> LF \<Longrightarrow> process_byte b f \<noteq> (Inr (Some x), f')"
  by (simp add: process_byte_def Let_def)

text \<open>The loop over a withheld prefix returns early only at its last byte: no byte is lost.\<close>

lemma feed_pending:
  assumes "\<forall>b \<in> set q. b \<noteq> CR \<and> b \<noteq> LF" "bom_decided f"
  shows "feed (q @ x # bs) f =
    (case process_pending (q @ [x]) f of
       (Inl e, f') \<Rightarrow> (Inl e, f')
     | (Inr r, f') \<Rightarrow>
         (case feed bs f' of
            (Inl e, f'') \<Rightarrow> (Inl e, f'')
          | (Inr rs, f'') \<Rightarrow> (Inr (case r of None \<Rightarrow> rs | Some y \<Rightarrow> y # rs), f'')))"
  using assms
proof (induction q arbitrary: f)
  case Nil
  obtain r g where pb: "process_byte x f = (r, g)" by fastforce
  have "process_pending [x] f = (r, g)"
    using pb by (cases r; cases "projr r") simp_all
  with Nil pb show ?case by (simp add: push_byte_def del: process_pending.simps)
next
  case (Cons b q)
  obtain r g where pb: "process_byte b f = (r, g)" by fastforce
  then have g: "bom_decided g" using Cons.prems(2) process_byte_frame [of b f r g] by simp
  have b: "b \<noteq> CR" "b \<noteq> LF" using Cons.prems by auto
  show ?case
  proof (cases r)
    case (Inl e)
    then show ?thesis using Cons.prems pb by (simp add: push_byte_def)
  next
    case (Inr y)
    with pb process_byte_plain [OF b, of f] have r: "r = Inr None" by (cases y) auto
    have fd: "feed ((b # q) @ x # bs) f = feed (q @ x # bs) g"
      using Cons.prems pb r by (cases "feed (q @ x # bs) g") (simp add: push_byte_def split: sum.split)
    have pp: "process_pending ((b # q) @ [x]) f = process_pending (q @ [x]) g"
      using pb r by simp
    show ?thesis unfolding fd pp by (rule Cons.IH) (use Cons.prems(1) g in simp_all)
  qed
qed

lemma push_byte_withheld:
  assumes "f = sse_new ml md\<lparr>bom_prefix := q\<rparr>" "q @ [x] \<noteq> BOM" "take (length q + 1) BOM \<noteq> q @ [x]"
  shows "push_byte x f = process_pending (q @ [x]) (sse_new ml md\<lparr>bom_decided := True\<rparr>)"
  using assms by (simp add: push_byte_def sse_new_def Let_def)

lemma feed_withheld:
  assumes f: "f = sse_new ml md\<lparr>bom_prefix := q\<rparr>" "q @ [x] \<noteq> BOM" "take (length q + 1) BOM \<noteq> q @ [x]"
    and q: "\<forall>b \<in> set q. b \<noteq> CR \<and> b \<noteq> LF"
  shows "feed (x # cs) f = feed (q @ x # cs) (sse_new ml md\<lparr>bom_decided := True\<rparr>)"
  by (simp only: feed.simps(2) [of x cs f] push_byte_withheld [OF f])
     (rule feed_pending [OF q, symmetric], simp)

lemma feed_fresh:
  "feed bs (sse_new ml md) =
     (if bs \<in> {[], take 1 BOM, take 2 BOM} then (Inr [], sse_new ml md\<lparr>bom_prefix := bs\<rparr>)
      else feed (strip_bom bs) (sse_new ml md\<lparr>bom_decided := True\<rparr>))"
proof -
  let ?new = "sse_new ml md"
  have p1: "push_byte (CHR 0xEF) ?new = (Inr None, ?new\<lparr>bom_prefix := [CHR 0xEF]\<rparr>)"
    and p2: "push_byte (CHR 0xBB) (?new\<lparr>bom_prefix := [CHR 0xEF]\<rparr>) =
             (Inr None, ?new\<lparr>bom_prefix := [CHR 0xEF, CHR 0xBB]\<rparr>)"
    and p3: "push_byte (CHR 0xBF) (?new\<lparr>bom_prefix := [CHR 0xEF, CHR 0xBB]\<rparr>) =
             (Inr None, ?new\<lparr>bom_decided := True\<rparr>)"
    and p0: "?new = ?new\<lparr>bom_prefix := []\<rparr>"
    by (simp_all add: push_byte_def sse_new_def Let_def BOM_def)
  have skip: "feed (b # cs) f = feed cs f'" if "push_byte b f = (Inr None, f')" for b cs f f'
    using that by (cases "feed cs f'"; cases "fst (feed cs f')") simp_all
  consider (short) "bs \<in> {[], [CHR 0xEF], [CHR 0xEF, CHR 0xBB]}"
    | (one) x cs where "bs = x # cs" "x \<noteq> CHR 0xEF"
    | (two) x cs where "bs = CHR 0xEF # x # cs" "x \<noteq> CHR 0xBB"
    | (three) x cs where "bs = CHR 0xEF # CHR 0xBB # x # cs" "x \<noteq> CHR 0xBF"
    | (mark) cs where "bs = CHR 0xEF # CHR 0xBB # CHR 0xBF # cs"
    by (cases bs; cases "tl bs"; cases "tl (tl bs)") auto
  then show ?thesis
  proof cases
    case short
    then show ?thesis by (auto simp: BOM_def p1 p2 p0 [symmetric])
  next
    case one
    then show ?thesis using feed_withheld [OF p0, of x cs]
      by (simp add: BOM_def strip_bom_def del: feed.simps)
  next
    case two
    then show ?thesis
      using feed_withheld [OF refl, of "[CHR 0xEF]" x cs ml md]
      by (simp add: BOM_def strip_bom_def skip [OF p1] del: feed.simps)
  next
    case three
    then show ?thesis
      using feed_withheld [OF refl, of "[CHR 0xEF, CHR 0xBB]" x cs ml md]
      by (simp add: BOM_def strip_bom_def skip [OF p1] skip [OF p2] del: feed.simps)
  next
    case mark
    then show ?thesis
      by (simp add: BOM_def strip_bom_def skip [OF p1] skip [OF p2] skip [OF p3] del: feed.simps)
  qed
qed


subsection \<open>The framer as a step machine\<close>

definition framer_step :: "char \<Rightarrow> sse_framer \<Rightarrow> sse_framer" where
  "framer_step b f = snd (push_byte b f)"

definition framer_inv :: "nat \<Rightarrow> nat \<Rightarrow> sse_framer \<Rightarrow> bool" where
  "framer_inv ml md f \<longleftrightarrow> sse_inv f \<and> max_line_bytes f = ml \<and> max_data_bytes f = md"

lemma process_pending_inv:
  "process_pending bs f = (r, f') \<Longrightarrow> framer_inv ml md f \<Longrightarrow> bom_decided f \<Longrightarrow> framer_inv ml md f'"
proof (induction bs arbitrary: f)
  case (Cons b bs)
  obtain r1 g where pb: "process_byte b f = (r1, g)" by fastforce
  then have g: "framer_inv ml md g" "bom_decided g"
    using Cons.prems(2,3) process_byte_inv [OF pb] process_byte_frame [OF pb]
    by (simp_all add: framer_inv_def)
  have "f' = g \<or> process_pending bs g = (r, f')"
    using Cons.prems(1) pb by (simp split: sum.splits option.splits)
  then show ?case using g Cons.IH [of g] by blast
qed simp

lemma push_byte_inv:
  assumes "framer_inv ml md f"
  shows "framer_inv ml md (framer_step b f)"
proof -
  obtain r g where pb: "push_byte b f = (r, g)" by fastforce
  let ?p = "bom_prefix f @ [b]" and ?d = "f\<lparr>bom_prefix := [], bom_decided := True\<rparr>"
  have pre: "bom_prefix f \<in> {[], take 1 BOM, take 2 BOM}" if "\<not> bom_decided f"
    using assms that by (simp add: framer_inv_def sse_inv_def)
  have d: "framer_inv ml md ?d"
    using assms by (cases "bom_decided f"; clarsimp simp: framer_inv_def sse_inv_def)
  consider (decided) "bom_decided f" | (mark) "\<not> bom_decided f" "?p = BOM"
    | (hold) "\<not> bom_decided f" "?p \<noteq> BOM" "take (length ?p) BOM = ?p"
    | (release) "\<not> bom_decided f" "?p \<noteq> BOM" "take (length ?p) BOM \<noteq> ?p"
    by blast
  then have "framer_inv ml md g"
  proof cases
    case decided
    then show ?thesis
      using pb assms process_byte_inv [of b f r g] process_byte_frame [of b f r g]
      by (simp add: push_byte_def framer_inv_def)
  next
    case mark
    then show ?thesis using pb d by (simp add: push_byte_def Let_def)
  next
    case hold
    then have "?p \<in> {[], take 1 BOM, take 2 BOM}"
      using pre by (auto simp: BOM_def)
    then show ?thesis
      using hold pb assms by (clarsimp simp: push_byte_def Let_def framer_inv_def sse_inv_def)
  next
    case release
    then show ?thesis
      using pb d process_pending_inv [of ?p ?d r g ml md] by (simp add: push_byte_def Let_def)
  qed
  then show ?thesis by (simp add: framer_step_def pb)
qed

lemma framer_inv_new: "framer_inv ml md (sse_new ml md)"
  by (simp add: framer_inv_def sse_inv_def sse_new_def)

interpretation framer: step_machine framer_step "framer_inv ml md" for ml md
  by unfold_locales (rule push_byte_inv)

lemma fresh_decided:
  "sse_inv (sse_new ml md\<lparr>bom_decided := True\<rparr>)"
  "rest_lines (sse_new ml md\<lparr>bom_decided := True\<rparr>) s = sse_lines s"
  "pend (sse_new ml md\<lparr>bom_decided := True\<rparr>) = None"
  by (simp_all add: sse_inv_def sse_new_def rest_lines_def pend_def)

lemma strip_bom_short: "s \<in> {[], take 1 BOM, take 2 BOM} \<Longrightarrow> sse_lines (strip_bom s) = []"
  by (auto simp: BOM_def strip_bom_def intro: sse_lines_partial)

text \<open>
  A discarded item leaves no trace but the pending LF of a CRLF pair.
\<close>

lemma process_byte_after_cr:
  "\<not> (after_cr f \<and> b = LF) \<Longrightarrow> process_byte b f = process_byte b (f\<lparr>after_cr := False\<rparr>)"
  unfolding process_byte_def by (simp only: if_False) simp

lemma feed_after_cr:
  assumes "bom_decided f"
  shows "fst (feed bs f) = fst (feed (skip_lf (after_cr f) bs) (f\<lparr>after_cr := False\<rparr>))"
proof (cases bs)
  case (Cons b cs)
  show ?thesis
  proof (cases "after_cr f \<and> b = LF")
    case True
    then have "process_byte b f = (Inr None, f\<lparr>after_cr := False\<rparr>)" by (simp add: process_byte_def)
    then show ?thesis using assms Cons True
      by (cases "feed cs (f\<lparr>after_cr := False\<rparr>)") (auto simp: push_byte_def split: sum.split)
  next
    case False
    have "push_byte b f = push_byte b (f\<lparr>after_cr := False\<rparr>)"
      using assms process_byte_after_cr [OF False] by (simp add: push_byte_def)
    moreover have "skip_lf (after_cr f) bs = b # cs" using Cons False by (cases "after_cr f") auto
    ultimately show ?thesis using Cons by simp
  qed
qed simp

lemma discard_pending_fresh:
  assumes "framer_inv ml md f"
  shows "(discard_pending f)\<lparr>after_cr := False\<rparr> = sse_new ml md\<lparr>bom_decided := bom_decided f\<rparr>"
    and "\<not> bom_decided f \<Longrightarrow> discard_pending f = sse_new ml md"
  using assms by (auto simp: discard_pending_def sse_new_def framer_inv_def sse_inv_def
      split: if_splits intro!: sse_framer.equality)


subsection \<open>Correctness\<close>

text \<open>
  C4. The incremental framer computes the EventSource reading of the whole byte stream:
  fed byte by byte to a fresh framer, a stream is accepted exactly when its complete lines
  are UTF-8, no line exceeds the line limit and no item exceeds the data limit, and then the
  records emitted are those of \<open>sse_spec\<close>, which strips the byte order mark, splits at
  LF, CR or CRLF and dispatches at blank lines. Every other stream ends in a framing error.
\<close>

theorem feed_computes_spec:
  "case fst (feed bs (sse_new ml md)) of
     Inr rs \<Rightarrow> sse_accepts ml md bs \<and> rs = sse_spec bs
   | Inl e \<Rightarrow> \<not> sse_accepts ml md bs"
proof (cases "bs \<in> {[], take 1 BOM, take 2 BOM}")
  case True
  then show ?thesis
    by (simp add: feed_fresh sse_accepts_def sse_spec_def strip_bom_short [OF True])
next
  case False
  let ?g = "sse_new ml md\<lparr>bom_decided := True\<rparr>"
  have acc: "sse_accepts ml md bs \<longleftrightarrow> stream_ok ?g (strip_bom bs)"
    unfolding sse_accepts_def stream_ok_def fresh_decided using False by (simp add: sse_new_def)
  obtain r f' where fd: "feed (strip_bom bs) ?g = (r, f')" by fastforce
  have "feed bs (sse_new ml md) = (r, f')" using feed_fresh [of bs ml md] False fd by (simp only: if_False)
  then show ?thesis
    using fd feed_accepts [OF fresh_decided(1), of ml md "strip_bom bs"] acc
      feed_decided [of "strip_bom bs" ?g _ f', OF _ fresh_decided(1)]
    unfolding sse_spec_def fresh_decided
    by (cases r) auto
qed

text \<open>
  C34. The framer's memory is bounded by its configuration: whatever bytes are pushed, and
  whatever errors they raise on the way, the line buffer never exceeds the line limit, the
  data buffer never exceeds the data limit and at most two bytes are withheld as a possible
  byte order mark.
\<close>

theorem framer_buffers_bounded:
  "let f = fold framer_step bs (sse_new ml md) in
   length (line_buf f) \<le> ml \<and> length (data_buf f) \<le> md \<and> length (bom_prefix f) \<le> 2"
  using framer.run_inv [OF framer_inv_new [of ml md], of bs]
  by (auto simp: Let_def framer_inv_def sse_inv_def BOM_def split: if_splits)

text \<open>
  \<open>discard_pending\<close> forgets the partial record completely: after any bytes, the
  records that later bytes produce are those of a new framer (past its byte order mark if
  that was decided), the LF of a CRLF pair split by the discard being skipped.
\<close>

theorem discard_pending_forgets:
  "let f = fold framer_step before (sse_new ml md) in
   fst (feed bs (discard_pending f)) =
   fst (feed (skip_lf (after_cr f) bs) (sse_new ml md\<lparr>bom_decided := bom_decided f\<rparr>))"
proof -
  define f where "f = fold framer_step before (sse_new ml md)"
  have inv: "framer_inv ml md f" unfolding f_def by (rule framer.run_inv [OF framer_inv_new])
  have cr: "after_cr (discard_pending f) = after_cr f" "bom_decided (discard_pending f) = bom_decided f"
    by (simp_all add: discard_pending_def)
  have "fst (feed bs (discard_pending f)) =
        fst (feed (skip_lf (after_cr f) bs) (sse_new ml md\<lparr>bom_decided := bom_decided f\<rparr>))"
  proof (cases "bom_decided f")
    case True
    then show ?thesis
      using feed_after_cr [of "discard_pending f" bs] discard_pending_fresh(1) [OF inv] cr by simp
  next
    case False
    then have "\<not> after_cr f" using inv by (simp add: framer_inv_def sse_inv_def)
    then show ?thesis
      using False discard_pending_fresh [OF inv] by (simp add: sse_new_def)
  qed
  then show ?thesis by (simp add: Let_def f_def)
qed

end
