(* ===== verification/Json_Value.thy ===== *)
theory Json_Value
  imports Agent_Prelude "HOL-Library.Char_ord" "HOL-Library.List_Lexorder"
begin

section \<open>JSON values\<close>

text \<open>
  \<open>serde_json::Value\<close> as the code uses it. A number keeps serde's three representations
  (non-negative, negative, floating point with its bits). An object is the \<open>BTreeMap\<close>
  of the default build: an association list in ascending byte order of its keys, without
  duplicates; \<open>json_wf\<close> states this for every object inside a value, and \<open>jobject\<close>,
  the \<open>json!\<close> macro, builds such objects. Serialisation is a parameter of the
  definitions that need it.
\<close>

datatype json_number = PosInt u64 | NegInt u64 | Float u64

datatype json =
    JNull
  | JBool bool
  | JNumber json_number
  | JString string
  | JArray "json list"
  | JObject "(string \<times> json) list"

type_synonym json_map = "(string \<times> json) list"

fun jinsert :: "string \<Rightarrow> json \<Rightarrow> json_map \<Rightarrow> json_map" where
  "jinsert k v [] = [(k, v)]"
| "jinsert k v ((k', v') # m) =
     (if k < k' then (k, v) # (k', v') # m
      else if k = k' then (k, v) # m
      else (k', v') # jinsert k v m)"

definition jobject :: "(string \<times> json) list \<Rightarrow> json" where
  "jobject kvs = JObject (fold (\<lambda>(k, v). jinsert k v) kvs [])"

fun as_object :: "json \<Rightarrow> json_map option" where
  "as_object (JObject m) = Some m"
| "as_object _ = None"

fun as_array :: "json \<Rightarrow> json list option" where
  "as_array (JArray xs) = Some xs"
| "as_array _ = None"

fun as_str :: "json \<Rightarrow> string option" where
  "as_str (JString s) = Some s"
| "as_str _ = None"

fun as_bool :: "json \<Rightarrow> bool option" where
  "as_bool (JBool b) = Some b"
| "as_bool _ = None"

fun as_u64 :: "json \<Rightarrow> u64 option" where
  "as_u64 (JNumber (PosInt n)) = Some n"
| "as_u64 _ = None"

text \<open>\<open>Value::get\<close> on a key: \<open>None\<close> unless the value is an object that has it.\<close>

definition jget :: "string \<Rightarrow> json \<Rightarrow> json option" where
  "jget k v = (case as_object v of None \<Rightarrow> None | Some m \<Rightarrow> map_of m k)"

definition is_string :: "json \<Rightarrow> bool" where "is_string v \<longleftrightarrow> as_str v \<noteq> None"
definition is_boolean :: "json \<Rightarrow> bool" where "is_boolean v \<longleftrightarrow> as_bool v \<noteq> None"
definition is_object :: "json \<Rightarrow> bool" where "is_object v \<longleftrightarrow> as_object v \<noteq> None"
definition is_array :: "json \<Rightarrow> bool" where "is_array v \<longleftrightarrow> as_array v \<noteq> None"

definition sorted_keys :: "json_map \<Rightarrow> bool" where
  "sorted_keys m \<longleftrightarrow> sorted_wrt (<) (map fst m)"

fun json_wf :: "json \<Rightarrow> bool" where
  "json_wf (JArray xs) = list_all json_wf xs"
| "json_wf (JObject m) = (sorted_keys m \<and> list_all (\<lambda>kv. json_wf (snd kv)) m)"
| "json_wf _ = True"

subsection \<open>Objects behave as maps\<close>

lemma map_of_jinsert [simp]: "map_of (jinsert k v m) = (map_of m)(k \<mapsto> v)"
  by (induction m rule: jinsert.induct) auto

lemma keys_jinsert: "set (map fst (jinsert k v m)) = insert k (set (map fst m))"
  by (induction m rule: jinsert.induct) auto

lemma sorted_keys_jinsert: "sorted_keys m \<Longrightarrow> sorted_keys (jinsert k v m)"
proof (induction k v m rule: jinsert.induct)
  case (2 k v k' v' m)
  have "\<forall>k'' \<in> set (map fst (jinsert k v m)). k' < k''"
    if "k' < k" "\<forall>x \<in> set (map fst m). k' < x"
    using that unfolding keys_jinsert by simp
  with 2 show ?case
    by (auto simp: sorted_keys_def not_less_iff_gr_or_eq dest: less_trans)
qed (simp add: sorted_keys_def)

lemma jobject_sorted: "sorted_keys (fold (\<lambda>(k, v). jinsert k v) kvs m)" if "sorted_keys m"
  using that by (induction kvs arbitrary: m) (auto intro: sorted_keys_jinsert)

lemma map_of_jobject:
  "distinct (map fst kvs) \<Longrightarrow>
   map_of (fold (\<lambda>(k, v). jinsert k v) kvs m) = map_of m ++ map_of kvs"
proof (induction kvs arbitrary: m)
  case (Cons kv kvs)
  then show ?case
    by (cases kv) (auto simp: map_add_upd_left dom_map_of_conv_image_fst map_add_def fun_eq_iff
                        map_of_eq_None_iff [symmetric] split: option.splits)
qed simp

lemma jget_jobject: "distinct (map fst kvs) \<Longrightarrow> jget k (jobject kvs) = map_of kvs k"
  by (simp add: jget_def jobject_def map_of_jobject)

lemma sorted_keys_distinct: "sorted_keys m \<Longrightarrow> distinct (map fst m)"
  by (induction m) (auto simp: sorted_keys_def)

end
