(* ===== verification/Capability_Types.thy ===== *)
theory Capability_Types
  imports Json_Value
begin

section \<open>Capability types (\<open>capabilities/types.rs\<close>)\<close>

text \<open>
  The data the lifecycle engine, the approval gate and the artifact store exchange: owners,
  the risk lattice, prepare metadata, durable started records, token claims and the typed
  errors with their codes and messages. \<open>Instant\<close> is the number of nanoseconds since the
  clock's origin; \<open>PathBuf\<close> is its byte string.
\<close>

subsection \<open>Owners\<close>

record capability_owner =
  profile :: string
  session :: string
  run :: string

definition validate_label :: "string \<Rightarrow> string \<Rightarrow> (string, string) result" where
  "validate_label v name =
     (if v = [] then Inl (name @ '' must not be empty'')
      else if CHR 0x00 \<in> set v then Inl (name @ '' is invalid'')
      else if 128 < length v then Inl (name @ '' exceeds the configured bound'')
      else Inr v)"

definition owner_new :: "string \<Rightarrow> string \<Rightarrow> string \<Rightarrow> (string, capability_owner) result" where
  "owner_new p s r =
     (case validate_label p ''profile'' of Inl e \<Rightarrow> Inl e | Inr p' \<Rightarrow>
      (case validate_label s ''session'' of Inl e \<Rightarrow> Inl e | Inr s' \<Rightarrow>
       (case validate_label r ''run'' of Inl e \<Rightarrow> Inl e | Inr r' \<Rightarrow>
          Inr \<lparr>profile = p', session = s', run = r'\<rparr>)))"

definition with_run :: "capability_owner \<Rightarrow> string \<Rightarrow> string" where
  "with_run ow run_id = profile ow @ ''/'' @ session ow @ ''/'' @ run_id"

definition owner_key :: "capability_owner \<Rightarrow> string" where
  "owner_key ow = profile ow @ ''/'' @ session ow @ ''/'' @ run ow"

subsection \<open>The risk lattice\<close>

datatype capability_risk = Read | Write | Execute

fun risk_rank :: "capability_risk \<Rightarrow> nat" where
  "risk_rank Read = 0"
| "risk_rank Write = 1"
| "risk_rank Execute = 2"

instantiation capability_risk :: linorder
begin

definition less_eq_capability_risk :: "capability_risk \<Rightarrow> capability_risk \<Rightarrow> bool" where
  "a \<le> b \<longleftrightarrow> risk_rank a \<le> risk_rank b"

definition less_capability_risk :: "capability_risk \<Rightarrow> capability_risk \<Rightarrow> bool" where
  "a < b \<longleftrightarrow> risk_rank a < risk_rank b"

instance
proof
  fix a b :: capability_risk
  show "a \<le> b \<Longrightarrow> b \<le> a \<Longrightarrow> a = b"
    by (cases a; cases b) (simp_all add: less_eq_capability_risk_def)
qed (auto simp: less_eq_capability_risk_def less_capability_risk_def)

end

fun risk_as_str :: "capability_risk \<Rightarrow> string" where
  "risk_as_str Read = ''read''"
| "risk_as_str Write = ''write''"
| "risk_as_str Execute = ''execute''"

subsection \<open>Errors\<close>

datatype lifecycle_error =
    OwnerMismatch (expected: string) (actual: string)
  | InactiveRun
  | MissingParent
  | ApprovalDenied (reason: string)
  | ApprovalCeiling (requested: capability_risk) (ceiling: capability_risk)
  | DeadlineElapsed
  | Cancelled
  | DuplicateClose
  | TokenUnknown
  | LimitExceeded
  | StartedCommitFailed string
  | ResultCommitFailed string
  | ResultTooLarge
  | Interrupted
  | RegistryMismatch
  | InvalidMetadata string
  | UnresolvedCall

definition risk_parse :: "string \<Rightarrow> (lifecycle_error, capability_risk) result" where
  "risk_parse v =
     (if v = ''read'' then Inr Read
      else if v = ''write'' then Inr Write
      else if v = ''execute'' then Inr Execute
      else Inl (InvalidMetadata ''unsupported risk class''))"

fun error_code :: "lifecycle_error \<Rightarrow> string" where
  "error_code (OwnerMismatch _ _) = ''owner_mismatch''"
| "error_code InactiveRun = ''inactive_run''"
| "error_code MissingParent = ''missing_parent''"
| "error_code (ApprovalDenied _) = ''approval_denied''"
| "error_code (ApprovalCeiling _ _) = ''approval_ceiling''"
| "error_code DeadlineElapsed = ''deadline_elapsed''"
| "error_code Cancelled = ''cancelled''"
| "error_code DuplicateClose = ''duplicate_close''"
| "error_code TokenUnknown = ''token_unknown''"
| "error_code LimitExceeded = ''max_tool_calls''"
| "error_code (StartedCommitFailed _) = ''started_commit_failed''"
| "error_code (ResultCommitFailed _) = ''result_commit_failed''"
| "error_code ResultTooLarge = ''result_too_large''"
| "error_code Interrupted = ''interrupted''"
| "error_code RegistryMismatch = ''registry_mismatch''"
| "error_code (InvalidMetadata _) = ''invalid_metadata''"
| "error_code UnresolvedCall = ''unresolved_call''"

fun error_message :: "lifecycle_error \<Rightarrow> string" where
  "error_message (OwnerMismatch ex ac) = ''owner mismatch: expected '' @ ex @ '', got '' @ ac"
| "error_message InactiveRun = ''run is not active''"
| "error_message MissingParent = ''durable assistant parent is missing''"
| "error_message (ApprovalDenied r) = r"
| "error_message (ApprovalCeiling rq cl) =
     ''requested risk '' @ risk_as_str rq @ '' exceeds approved ceiling '' @ risk_as_str cl"
| "error_message DeadlineElapsed = ''deadline elapsed''"
| "error_message Cancelled = ''run was cancelled''"
| "error_message DuplicateClose = ''execution token is already closed''"
| "error_message TokenUnknown = ''execution token is unknown''"
| "error_message LimitExceeded = ''max_tool_calls exceeded''"
| "error_message (StartedCommitFailed m) = m"
| "error_message (ResultCommitFailed m) = m"
| "error_message ResultTooLarge = ''tool result exceeds output budget''"
| "error_message Interrupted = ''execution was interrupted''"
| "error_message RegistryMismatch = ''registry identity does not match frozen snapshot''"
| "error_message (InvalidMetadata m) = m"
| "error_message UnresolvedCall = ''an unresolved execution token already exists for this call''"

record capability_error =
  cap_code :: string
  cap_message :: string

definition capability_error_new :: "string \<Rightarrow> string \<Rightarrow> capability_error" where
  "capability_error_new c m = \<lparr>cap_code = c, cap_message = m\<rparr>"

definition capability_error_from :: "lifecycle_error \<Rightarrow> capability_error" where
  "capability_error_from e = capability_error_new (error_code e) (error_message e)"

subsection \<open>Records\<close>

record prepare_metadata =
  run_id :: string
  call_id :: string
  tool_name :: string
  argument_digest :: string
  registry_identity :: string
  risk_class :: capability_risk
  summary :: string

record durable_started =
  ds_run_id :: string
  ds_call_id :: string
  ds_tool_name :: string
  ds_argument_digest :: string
  ds_registry_identity :: string
  ds_risk_class :: capability_risk
  ds_summary :: string
  ds_generation :: u64

datatype prepare_outcome =
    ExecuteOutcome (execution_token: string) (outcome_deadline_ms: u64)
  | ReplayOutcome (replayed: json)

record commit_outcome =
  envelope :: json

record lifecycle_limits =
  max_tool_calls :: u64
  max_output_bytes :: nat
  max_summary_bytes :: nat

type_synonym instant = nat

record token_claims =
  tc_owner :: capability_owner
  tc_call_id :: string
  tc_tool_name :: string
  tc_argument_digest :: string
  tc_registry_identity :: string
  tc_risk_ceiling :: capability_risk
  tc_output_budget :: nat
  tc_generation :: u64
  tc_deadline :: instant
  tc_deadline_ms :: u64
  tc_workspace :: string

subsection \<open>Facts\<close>

lemma risk_parse_as_str: "risk_parse (risk_as_str r) = Inr r"
  by (cases r) (simp_all add: risk_parse_def)

lemma risk_parse_Inr: "risk_parse v = Inr r \<longleftrightarrow> v = risk_as_str r"
  by (cases r) (auto simp: risk_parse_def)

lemma validate_label_Inr:
  "validate_label v n = Inr w \<longleftrightarrow> w = v \<and> v \<noteq> [] \<and> CHR 0x00 \<notin> set v \<and> length v \<le> 128"
  by (auto simp: validate_label_def)

lemma owner_new_Inr:
  "owner_new p s r = Inr ow \<longleftrightarrow>
   ow = \<lparr>profile = p, session = s, run = r\<rparr> \<and>
   (\<forall>v \<in> {p, s, r}. v \<noteq> [] \<and> CHR 0x00 \<notin> set v \<and> length v \<le> 128)"
  by (auto simp: owner_new_def validate_label_Inr split: sum.splits)
     (metis validate_label_Inr sum.distinct(1) sum.exhaust)+

end
