(* ===== verification/Approval_Gate.thy ===== *)
theory Approval_Gate
  imports Capability_Types "HOL-Library.AList" "HOL-Library.Multiset"
begin

section \<open>Approval gates (\<open>capabilities/lifecycle.rs\<close>)\<close>

text \<open>
  The two \<open>ApprovalGate\<close> implementations: \<open>AllowAllApproval\<close>, which approves what is
  requested, and \<open>GuardianApprovalGate\<close>, which keeps one-use attestations bound to the
  exact action they were given for. The gate's clock is read at fixed points of each
  method; the readings are arguments (\<open>clk\<close>, \<open>clk'\<close>) of the definitions.

  The interface locale \<open>approval_gate\<close> states what the lifecycle engine relies on; it is
  interpreted on both gates. The main result counts: along every sequence of gate calls, an
  action above read risk is authorised at most as often as that very action was attested.
\<close>

record approval_attestation =
  at_owner :: capability_owner
  at_metadata :: prepare_metadata
  at_generation :: u64
  at_expires_at_ms :: u64

record guardian =
  max_pending :: nat
  pending :: "(string \<times> approval_attestation) list"

definition guardian_new :: "nat \<Rightarrow> guardian" where
  "guardian_new n = \<lparr>max_pending = max n 1, pending = []\<rparr>"

definition denied :: "string \<Rightarrow> lifecycle_error" where
  "denied r = ApprovalDenied r"

definition guardian_authorize :: "prepare_metadata \<Rightarrow> (guardian, lifecycle_error, capability_risk) eff" where
  "guardian_authorize md g = (Inl (denied ''approval context is required''), g)"

definition guardian_attest ::
  "u64 \<Rightarrow> u64 \<Rightarrow> capability_owner \<Rightarrow> prepare_metadata \<Rightarrow> u64 \<Rightarrow> u64 \<Rightarrow> u64 \<Rightarrow>
   (guardian, lifecycle_error, unit) eff" where
  "guardian_attest clk clk' ow md gen now_ms deadline_ms g =
     (if risk_class md = Read then
        (Inl (denied ''read-only actions do not accept write approval''), g)
      else if deadline_ms \<le> now_ms \<or> deadline_ms \<le> clk then (Inl DeadlineElapsed, g)
      else
        (let g1 = g\<lparr>pending := filter (\<lambda>(k, f). clk' < at_expires_at_ms f) (pending g)\<rparr> in
         if map_of (pending g1) (call_id md) \<noteq> None then
           (Inl (denied ''approval for this call is already pending''), g1)
         else if max_pending g1 \<le> length (pending g1) then
           (Inl (denied ''approval review capacity is exhausted''), g1)
         else
           (Inr (), g1\<lparr>pending := AList.update (call_id md)
              \<lparr>at_owner = ow, at_metadata = md, at_generation = gen,
               at_expires_at_ms = deadline_ms\<rparr> (pending g1)\<rparr>)))"

definition guardian_authorize_at ::
  "u64 \<Rightarrow> prepare_metadata \<Rightarrow> u64 \<Rightarrow> u64 \<Rightarrow> (guardian, lifecycle_error, capability_risk) eff" where
  "guardian_authorize_at clk md gen now_ms g =
     (let g1 = g\<lparr>pending := AList.delete (call_id md) (pending g)\<rparr> in
      case map_of (pending g) (call_id md) of
        None \<Rightarrow>
          (if risk_class md = Read then (Inr Read, g1)
           else (Inl (denied ''Guardian approval is required''), g1))
      | Some f \<Rightarrow>
          if at_metadata f \<noteq> md then
            (Inl (denied ''approval does not match the original action''), g1)
          else if run (at_owner f) \<noteq> run_id md then
            (Inl (denied ''approval owner does not match the action run''), g1)
          else if at_generation f \<noteq> gen then
            (Inl (denied ''approval context is stale''), g1)
          else if at_expires_at_ms f \<le> now_ms \<or> at_expires_at_ms f \<le> clk then
            (Inl DeadlineElapsed, g1)
          else (Inr (risk_class md), g1))"

text \<open>\<open>AllowAllApproval\<close> has no state; its \<open>attest\<close> is the trait's default.\<close>

definition allow_all_authorize :: "prepare_metadata \<Rightarrow> ('w, lifecycle_error, capability_risk) eff" where
  "allow_all_authorize md w = (Inr (risk_class md), w)"

definition default_attest ::
  "capability_owner \<Rightarrow> prepare_metadata \<Rightarrow> u64 \<Rightarrow> u64 \<Rightarrow> u64 \<Rightarrow> ('w, lifecycle_error, unit) eff" where
  "default_attest ow md gen now_ms deadline_ms w =
     (Inl (ApprovalDenied ''approval gate does not accept review attestations''), w)"

definition default_authorize_at ::
  "(prepare_metadata \<Rightarrow> ('w, lifecycle_error, capability_risk) eff) \<Rightarrow>
   prepare_metadata \<Rightarrow> u64 \<Rightarrow> u64 \<Rightarrow> ('w, lifecycle_error, capability_risk) eff" where
  "default_authorize_at authorize md gen now_ms = authorize md"

subsection \<open>The interface\<close>

locale approval_gate =
  fixes authorize_at :: "prepare_metadata \<Rightarrow> u64 \<Rightarrow> u64 \<Rightarrow> ('w, lifecycle_error, capability_risk) eff"
  assumes ceiling_is_requested: "authorize_at md gen now w = (Inr c, w') \<Longrightarrow> c = risk_class md"
begin

lemma request_within_ceiling: "authorize_at md gen now w = (Inr c, w') \<Longrightarrow> risk_class md \<le> c"
  using ceiling_is_requested by fastforce

end

interpretation guardian_gate: approval_gate "guardian_authorize_at clk" for clk
  by unfold_locales
     (auto simp: guardian_authorize_at_def Let_def split: option.splits if_splits)

interpretation allow_all_gate: approval_gate "default_authorize_at allow_all_authorize"
  by unfold_locales (simp add: default_authorize_at_def allow_all_authorize_def)

subsection \<open>The invariant of the guardian\<close>

definition guardian_inv :: "guardian \<Rightarrow> bool" where
  "guardian_inv g \<longleftrightarrow>
     distinct (map fst (pending g)) \<and> length (pending g) \<le> max_pending g \<and>
     (\<forall>(k, f) \<in> set (pending g).
        call_id (at_metadata f) = k \<and> risk_class (at_metadata f) \<noteq> Read)"

datatype gate_call =
    Attest capability_owner prepare_metadata u64 u64 u64 u64 u64
  | AuthorizeAt prepare_metadata u64 u64 u64

fun gate_step :: "gate_call \<Rightarrow> guardian \<Rightarrow> guardian" where
  "gate_step (Attest ow md gen now dl c c') g = snd (guardian_attest c c' ow md gen now dl g)"
| "gate_step (AuthorizeAt md gen now c) g = snd (guardian_authorize_at c md gen now g)"

lemma update_fresh: "map_of m k = None \<Longrightarrow> AList.update k v m = m @ [(k, v)]"
  by (induction m) (auto split: if_splits)

lemma guardian_attest_inv:
  assumes "guardian_inv g"
  shows "guardian_inv (snd (guardian_attest c c' ow md gen now dl g))"
proof -
  let ?p = "filter (\<lambda>(k, f). c' < at_expires_at_ms f) (pending g)"
  have "distinct (map fst ?p)" "length ?p \<le> max_pending g"
    "\<forall>(k, f) \<in> set ?p. call_id (at_metadata f) = k \<and> risk_class (at_metadata f) \<noteq> Read"
    using assms by (auto simp: guardian_inv_def distinct_map_filter intro: le_trans [OF length_filter_le])
  then show ?thesis
    using assms
    by (auto simp: guardian_attest_def guardian_inv_def Let_def update_fresh map_of_eq_None_iff
             intro: weak_map_of_SomeI)
qed

lemma guardian_authorize_at_inv:
  assumes "guardian_inv g"
  shows "guardian_inv (snd (guardian_authorize_at c md gen now g))"
proof -
  have "snd (guardian_authorize_at c md gen now g) = g\<lparr>pending := AList.delete (call_id md) (pending g)\<rparr>"
    by (simp add: guardian_authorize_at_def Let_def split: option.split)
  moreover have "length (AList.delete (call_id md) (pending g)) \<le> max_pending g"
    using assms by (auto simp: guardian_inv_def AList.delete_eq intro: le_trans [OF length_filter_le])
  ultimately show ?thesis
    using assms
    by (auto simp: guardian_inv_def AList.delete_eq distinct_map_filter)
qed

interpretation guardian_machine: step_machine gate_step guardian_inv
proof
  fix c g assume "guardian_inv g"
  then show "guardian_inv (gate_step c g)"
    by (cases c) (simp_all add: guardian_attest_inv guardian_authorize_at_inv)
qed

lemma guardian_inv_new: "guardian_inv (guardian_new n)"
  by (simp add: guardian_inv_def guardian_new_def)


subsection \<open>One attestation, one authorisation\<close>

datatype gate_event = Attested prepare_metadata | Authorized prepare_metadata

fun gate_events :: "gate_call \<Rightarrow> guardian \<Rightarrow> gate_event list" where
  "gate_events (Attest ow md gen now dl c c') g =
     (case fst (guardian_attest c c' ow md gen now dl g) of Inl e \<Rightarrow> [] | Inr u \<Rightarrow> [Attested md])"
| "gate_events (AuthorizeAt md gen now c) g =
     (case fst (guardian_authorize_at c md gen now g) of Inl e \<Rightarrow> [] | Inr r \<Rightarrow> [Authorized md])"

fun gate_trace :: "gate_call list \<Rightarrow> guardian \<Rightarrow> gate_event list" where
  "gate_trace [] g = []"
| "gate_trace (c # cs) g = gate_events c g @ gate_trace cs (gate_step c g)"

text \<open>How many authorisations of \<open>md\<close> the pending attestations still allow: none or one.\<close>

definition credit :: "prepare_metadata \<Rightarrow> guardian \<Rightarrow> nat" where
  "credit md g =
     (case map_of (pending g) (call_id md) of
        None \<Rightarrow> 0
      | Some f \<Rightarrow> if at_metadata f = md then 1 else 0)"

lemma map_of_filter_le:
  "distinct (map fst m) \<Longrightarrow> map_of (filter (\<lambda>(k, v). P v) m) k = Some v \<Longrightarrow> map_of m k = Some v"
  by (induction m) (auto split: if_splits dest: map_of_SomeD simp: image_iff)

lemma guardian_attest_outcome:
  assumes "guardian_attest c c' ow md gen now dl g = (r, g')"
  shows "(\<exists>e. r = Inl e) \<and>
         (pending g' = pending g \<or> pending g' = filter (\<lambda>(k, f). c' < at_expires_at_ms f) (pending g))
       \<or> r = Inr () \<and> map_of (pending g') =
           (map_of (filter (\<lambda>(k, f). c' < at_expires_at_ms f) (pending g)))
           (call_id md \<mapsto> \<lparr>at_owner = ow, at_metadata = md, at_generation = gen, at_expires_at_ms = dl\<rparr>)"
proof -
  let ?P = "filter (\<lambda>(k, f). c' < at_expires_at_ms f) (pending g)"
  consider (early) "risk_class md = Read \<or> dl \<le> now \<or> dl \<le> c"
    | (late) "risk_class md \<noteq> Read" "\<not> dl \<le> now" "\<not> dl \<le> c"
        "map_of ?P (call_id md) \<noteq> None \<or> max_pending g \<le> length ?P"
    | (stored) "risk_class md \<noteq> Read" "\<not> dl \<le> now" "\<not> dl \<le> c"
        "map_of ?P (call_id md) = None" "\<not> max_pending g \<le> length ?P"
    by blast
  then show ?thesis
  proof cases
    case early
    then show ?thesis using assms by (auto simp: guardian_attest_def split: if_splits)
  next
    case late
    then show ?thesis using assms by (auto simp: guardian_attest_def Let_def split: if_splits)
  next
    case stored
    then show ?thesis using assms by (auto simp: guardian_attest_def Let_def update_conv')
  qed
qed

lemma credit_filter:
  assumes "guardian_inv g"
  shows "credit md (g\<lparr>pending := filter (\<lambda>(k, f). P f) (pending g)\<rparr>) \<le> credit md g"
proof -
  have d: "distinct (map fst (pending g))" using assms by (simp add: guardian_inv_def)
  show ?thesis
  proof (cases "map_of (filter (\<lambda>(k, f). P f) (pending g)) (call_id md)")
    case None
    then show ?thesis by (simp add: credit_def)
  next
    case (Some f)
    with map_of_filter_le [OF d this] show ?thesis by (simp add: credit_def)
  qed
qed

lemma credit_attest:
  assumes "guardian_inv g"
  shows "count_list (gate_events (Attest ow md' gen now dl c c') g) (Authorized md) = 0"
    and "credit md (gate_step (Attest ow md' gen now dl c c') g) \<le>
         credit md g + count_list (gate_events (Attest ow md' gen now dl c c') g) (Attested md)"
proof -
  let ?P = "\<lambda>f. c' < at_expires_at_ms f"
  obtain r g' where at: "guardian_attest c c' ow md' gen now dl g = (r, g')" by fastforce
  show "count_list (gate_events (Attest ow md' gen now dl c c') g) (Authorized md) = 0"
    by (simp split: sum.split)
  have "credit md g' \<le> credit md g + (if r = Inr () \<and> md' = md then 1 else 0)"
    using guardian_attest_outcome [OF at] credit_filter [OF assms, of md ?P]
    by (auto simp: credit_def split: option.splits if_splits)
  then show "credit md (gate_step (Attest ow md' gen now dl c c') g) \<le>
         credit md g + count_list (gate_events (Attest ow md' gen now dl c c') g) (Attested md)"
    by (cases r) (auto simp: at)
qed

lemma guardian_authorize_at_Inr:
  "fst (guardian_authorize_at clk md gen now g) = Inr r \<longleftrightarrow>
     r = risk_class md \<and>
     (case map_of (pending g) (call_id md) of
        None \<Rightarrow> risk_class md = Read
      | Some f \<Rightarrow> at_metadata f = md \<and> run (at_owner f) = run_id md \<and> at_generation f = gen \<and>
                     now < at_expires_at_ms f \<and> clk < at_expires_at_ms f)"
  by (cases "map_of (pending g) (call_id md)")
     (auto simp: guardian_authorize_at_def Let_def not_le)

lemma guardian_authorize_at_pending:
  "pending (snd (guardian_authorize_at clk md gen now g)) = AList.delete (call_id md) (pending g)"
  by (simp add: guardian_authorize_at_def Let_def split: option.split)

lemma credit_authorize:
  assumes "risk_class md \<noteq> Read"
  shows "count_list (gate_events (AuthorizeAt md' gen now c) g) (Attested md) = 0"
    and "credit md (gate_step (AuthorizeAt md' gen now c) g) +
         count_list (gate_events (AuthorizeAt md' gen now c) g) (Authorized md) \<le> credit md g"
proof -
  show "count_list (gate_events (AuthorizeAt md' gen now c) g) (Attested md) = 0"
    by (simp split: sum.split)
  note st = guardian_authorize_at_pending
  show "credit md (gate_step (AuthorizeAt md' gen now c) g) +
         count_list (gate_events (AuthorizeAt md' gen now c) g) (Authorized md) \<le> credit md g"
  proof (cases "call_id md' = call_id md")
    case True
    then have "credit md (gate_step (AuthorizeAt md' gen now c) g) = 0"
      by (simp add: credit_def st delete_conv')
    moreover have "count_list (gate_events (AuthorizeAt md' gen now c) g) (Authorized md) \<le> credit md g"
    proof (cases "fst (guardian_authorize_at c md' gen now g)")
      case (Inr r)
      then show ?thesis
        using assms True unfolding guardian_authorize_at_Inr
        by (auto simp: credit_def Inr split: option.splits)
    qed simp
    ultimately show ?thesis by simp
  next
    case False
    then have "credit md (gate_step (AuthorizeAt md' gen now c) g) = credit md g"
      by (simp add: credit_def st delete_conv')
    moreover have "md' \<noteq> md" using False by auto
    ultimately show ?thesis by (simp split: sum.split)
  qed
qed

lemma gate_trace_credit:
  assumes "risk_class md \<noteq> Read" "guardian_inv g"
  shows "count_list (gate_trace cs g) (Authorized md) \<le> credit md g + count_list (gate_trace cs g) (Attested md)"
  using assms(2)
proof (induction cs arbitrary: g)
  case (Cons c cs)
  have "guardian_inv (gate_step c g)" using Cons.prems by (rule guardian_machine.step_inv)
  note IH = Cons.IH [OF this]
  show ?case
  proof (cases c)
    case (Attest ow md' gen now dl cl cl')
    show ?thesis
      using IH credit_attest [OF Cons.prems, where md = md and ow = ow and md' = md' and gen = gen
          and now = now and dl = dl and c = cl and c' = cl']
      unfolding Attest gate_trace.simps count_list_append by linarith
  next
    case (AuthorizeAt md' gen now cl)
    show ?thesis
      using IH credit_authorize [OF assms(1), where md' = md' and gen = gen and now = now and c = cl and g = g]
      unfolding AuthorizeAt gate_trace.simps count_list_append by linarith
  qed
qed simp

text \<open>
  C12. Guardian approvals are one-use and bound to the action. Along every sequence of
  attestations and authorisations of a guardian gate, with any clock readings, a write or
  execute action is authorised at most as often as exactly that action (run, call, tool,
  argument digest, registry, risk and summary) was attested.
\<close>

theorem guardian_one_use:
  assumes "risk_class md \<noteq> Read"
  shows "count_list (gate_trace cs (guardian_new n)) (Authorized md)
         \<le> count_list (gate_trace cs (guardian_new n)) (Attested md)"
  using gate_trace_credit [OF assms guardian_inv_new [of n], where cs = cs]
  by (simp add: credit_def guardian_new_def)

definition example_metadata :: prepare_metadata where
  "example_metadata =
     \<lparr>run_id = ''run-1'', call_id = ''call-1'', tool_name = ''write_file'', argument_digest = ''d'',
      registry_identity = ''registry'', risk_class = Write, summary = ''write a file''\<rparr>"

definition example_owner :: capability_owner where
  "example_owner = \<lparr>profile = ''default'', session = ''session-1'', run = ''run-1''\<rparr>"

theorem guardian_one_use_witness:
  "let cs = [Attest example_owner example_metadata 1 5 100 5 5, AuthorizeAt example_metadata 1 6 6,
             AuthorizeAt example_metadata 1 7 7];
       tr = gate_trace cs (guardian_new 4) in
   tr = [Attested example_metadata, Authorized example_metadata] \<and>
   count_list tr (Authorized example_metadata) \<le> count_list tr (Attested example_metadata)"
proof -
  have "risk_class example_metadata \<noteq> Read" by (simp add: example_metadata_def)
  from guardian_one_use [OF this] show ?thesis
    by (simp add: example_metadata_def example_owner_def guardian_new_def guardian_attest_def
          guardian_authorize_at_def Let_def)
qed

text \<open>
  What an authorisation above read risk rests on: an attestation of the same call, for
  identical metadata, by the owner of the run, in the same generation and not yet expired by
  either clock reading; and the attestation is gone afterwards, whatever the outcome.
\<close>

theorem guardian_authorize_at_exact:
  "(fst (guardian_authorize_at clk md gen now g) = Inr r \<longleftrightarrow>
     r = risk_class md \<and>
     (case map_of (pending g) (call_id md) of
        None \<Rightarrow> risk_class md = Read
      | Some f \<Rightarrow> at_metadata f = md \<and> run (at_owner f) = run_id md \<and> at_generation f = gen \<and>
                     now < at_expires_at_ms f \<and> clk < at_expires_at_ms f)) \<and>
   map_of (pending (snd (guardian_authorize_at clk md gen now g))) (call_id md) = None"
  by (simp add: guardian_authorize_at_Inr guardian_authorize_at_pending delete_conv')

text \<open>
  Review capacity is bounded: whatever calls it receives, the guardian never holds more
  attestations than its configured capacity (at least one), never two for one call, and
  never one for a read-only action.
\<close>

theorem guardian_capacity:
  "let g = fold gate_step cs (guardian_new n) in
   length (pending g) \<le> max_pending g \<and> distinct (map fst (pending g)) \<and>
   list_all (\<lambda>(k, f). call_id (at_metadata f) = k \<and> risk_class (at_metadata f) \<noteq> Read) (pending g)"
  using guardian_machine.run_inv [OF guardian_inv_new [of n], of cs]
  by (simp add: Let_def guardian_inv_def list_all_iff)

end
