(* ===== verification/Capability_Lifecycle.thy ===== *)
theory Capability_Lifecycle
  imports Approval_Gate
begin

section \<open>The capability lifecycle engine (\<open>capabilities/lifecycle.rs\<close>)\<close>

text \<open>
  \<open>CapabilityLifecycle\<close> admits tool calls: \<open>prepare\<close> checks a call, commits a durable
  started record and issues an execution token; \<open>authorize\<close> checks a token before every
  effect; \<open>commit\<close> closes it with a result; \<open>recover_open_tokens\<close> and a dropped lease
  interrupt it.

  The record \<open>lifecycle\<close> is \<open>LifecycleInner\<close>. Its trait objects (clock, token issuer,
  durable boundary, approval gate, cancellation flag) are records of operations on a world
  of type \<open>'w\<close>, which every call threads in program order; resources owned by a token are
  values of type \<open>'r\<close>. A method runs as one step: the calls of concurrent methods are not
  interleaved. A \<open>HashMap\<close> is an association list, whose order is the iteration order.
\<close>

subsection \<open>Interfaces\<close>

record 'w clock_ops =
  clk_now_ms :: "'w \<Rightarrow> u64 \<times> 'w"
  clk_now :: "'w \<Rightarrow> instant \<times> 'w"

record 'w durable_ops =
  assert_active_run :: "string \<Rightarrow> ('w, lifecycle_error, unit) eff"
  prepare_parent :: "string \<Rightarrow> string \<Rightarrow> string \<Rightarrow> ('w, lifecycle_error, unit) eff"
  replay_result :: "string \<Rightarrow> string \<Rightarrow> string \<Rightarrow> ('w, lifecycle_error, json option) eff"
  commit_started :: "durable_started \<Rightarrow> ('w, lifecycle_error, unit) eff"
  commit_result :: "string \<Rightarrow> json \<Rightarrow> ('w, lifecycle_error, json) eff"
  durable_interrupt :: "string \<Rightarrow> ('w, lifecycle_error, unit) eff"

record 'w approval_ops =
  ap_attest :: "capability_owner \<Rightarrow> prepare_metadata \<Rightarrow> u64 \<Rightarrow> u64 \<Rightarrow> u64 \<Rightarrow> ('w, lifecycle_error, unit) eff"
  ap_authorize_at :: "prepare_metadata \<Rightarrow> u64 \<Rightarrow> u64 \<Rightarrow> ('w, lifecycle_error, capability_risk) eff"

record ('w, 'r) lifecycle_deps =
  dep_clock :: "'w clock_ops"
  dep_tokens :: "'w \<Rightarrow> string \<times> 'w"
  dep_durable :: "'w durable_ops"
  dep_approval :: "'w approval_ops"
  dep_cancellation :: "'w \<Rightarrow> bool \<times> 'w"
  dep_release :: "'r \<Rightarrow> 'w \<Rightarrow> 'w"
  dep_rollback :: "'r \<Rightarrow> 'w \<Rightarrow> 'w"
  dep_json_size :: "json \<Rightarrow> nat"

text \<open>\<open>positive_duration_ms\<close> on a duration in nanoseconds; \<open>SystemClock::monotonic_ms\<close>.\<close>

definition positive_duration_ms :: "nat \<Rightarrow> u64" where
  "positive_duration_ms nanos =
     (let ms = nanos div 1000000 in
      if ms < 2 ^ 64 then (if ms = 0 \<and> nanos \<noteq> 0 then 1 else of_nat ms) else - 1)"

definition system_monotonic_ms :: "nat \<Rightarrow> u64 option" where
  "system_monotonic_ms elapsed_ms =
     (if elapsed_ms < 2 ^ 64 then
        (if elapsed_ms \<le> 2 ^ 63 - 1 then Some (of_nat elapsed_ms) else None)
      else None)"

text \<open>\<open>Instant::checked_add\<close>: the seconds of an instant are a signed 64-bit number.\<close>

definition instant_checked_add :: "instant \<Rightarrow> u64 \<Rightarrow> instant option" where
  "instant_checked_add t ms =
     (let t' = t + unat ms * 1000000 in if t' div 1000000000 < 2 ^ 63 then Some t' else None)"

subsection \<open>State\<close>

datatype 'r token_state =
    Open (open_claims: token_claims) (open_resources: "'r list")
  | Committed (closed_call_id: string)
  | TokenInterrupted (closed_call_id: string)

fun token_call_id :: "'r token_state \<Rightarrow> string" where
  "token_call_id (Open claims _) = tc_call_id claims"
| "token_call_id (Committed c) = c"
| "token_call_id (TokenInterrupted c) = c"

record ('w, 'r) lifecycle =
  lc_owner :: capability_owner
  lc_registry_identity :: string
  lc_workspace :: string
  lc_limits :: lifecycle_limits
  lc_deadline_ms :: u64
  generation :: u64
  call_count :: u64
  token_states :: "(string \<times> 'r token_state) list"
  world :: 'w

record ('w, 'r) lifecycle_builder =
  lb_owner :: "capability_owner option"
  lb_registry_identity :: "string option"
  lb_workspace :: "string option"
  lb_limits :: "lifecycle_limits option"
  lb_deadline_ms :: "u64 option"
  lb_clock :: "'w clock_ops option"
  lb_tokens :: "('w \<Rightarrow> string \<times> 'w) option"
  lb_durable :: "'w durable_ops option"
  lb_approval :: "'w approval_ops option"
  lb_cancellation :: "('w \<Rightarrow> bool \<times> 'w) option"
  lb_generation :: u64

definition lifecycle_builder_default :: "('w, 'r) lifecycle_builder" where
  "lifecycle_builder_default =
     \<lparr>lb_owner = None, lb_registry_identity = None, lb_workspace = None, lb_limits = None,
      lb_deadline_ms = None, lb_clock = None, lb_tokens = None, lb_durable = None,
      lb_approval = None, lb_cancellation = None, lb_generation = 1\<rparr>"

definition never_cancelled :: "'w \<Rightarrow> bool \<times> 'w" where
  "never_cancelled w = (False, w)"

definition required :: "'a option \<Rightarrow> string \<Rightarrow> (lifecycle_error, 'a) result" where
  "required x msg = (case x of None \<Rightarrow> Inl (InvalidMetadata msg) | Some a \<Rightarrow> Inr a)"

text \<open>
  \<open>build\<close>. The resource operations and the JSON size are not builder fields: resources carry
  their methods, and the size is serde's.
\<close>

definition build ::
  "('r \<Rightarrow> 'w \<Rightarrow> 'w) \<Rightarrow> ('r \<Rightarrow> 'w \<Rightarrow> 'w) \<Rightarrow> (json \<Rightarrow> nat) \<Rightarrow> 'w \<Rightarrow> ('w, 'r) lifecycle_builder \<Rightarrow>
   (lifecycle_error, ('w, 'r) lifecycle_deps \<times> ('w, 'r) lifecycle) result" where
  "build rel rb jsz w b =
     (case required (lb_owner b) ''lifecycle owner is required'' of Inl e \<Rightarrow> Inl e | Inr ow \<Rightarrow>
     (case required (lb_registry_identity b) ''registry identity is required'' of Inl e \<Rightarrow> Inl e | Inr ri \<Rightarrow>
     (case required (lb_workspace b) ''workspace is required'' of Inl e \<Rightarrow> Inl e | Inr ws \<Rightarrow>
     (case required (lb_limits b) ''lifecycle limits are required'' of Inl e \<Rightarrow> Inl e | Inr lim \<Rightarrow>
      if max_tool_calls lim = 0 \<or> max_output_bytes lim = 0 \<or> max_summary_bytes lim = 0
      then Inl (InvalidMetadata ''lifecycle limits must be positive'') else
     (case required (lb_deadline_ms b) ''deadline_ms is required'' of Inl e \<Rightarrow> Inl e | Inr dl \<Rightarrow>
     (case required (lb_clock b) ''clock is required'' of Inl e \<Rightarrow> Inl e | Inr ck \<Rightarrow>
     (case required (lb_tokens b) ''token issuer is required'' of Inl e \<Rightarrow> Inl e | Inr tk \<Rightarrow>
     (case required (lb_durable b) ''durable lifecycle is required'' of Inl e \<Rightarrow> Inl e | Inr du \<Rightarrow>
     (case required (lb_approval b) ''approval gate is required'' of Inl e \<Rightarrow> Inl e | Inr ap \<Rightarrow>
      Inr (\<lparr>dep_clock = ck, dep_tokens = tk, dep_durable = du, dep_approval = ap,
            dep_cancellation = (case lb_cancellation b of None \<Rightarrow> never_cancelled | Some c \<Rightarrow> c),
            dep_release = rel, dep_rollback = rb, dep_json_size = jsz\<rparr>,
           \<lparr>lc_owner = ow, lc_registry_identity = ri, lc_workspace = ws, lc_limits = lim,
            lc_deadline_ms = dl, generation = lb_generation b, call_count = 0,
            token_states = [], world = w\<rparr>))))))))))"

subsection \<open>Calls into the world\<close>

type_synonym ('w, 'r, 'a) lc = "(('w, 'r) lifecycle, lifecycle_error, 'a) eff"

definition on_world :: "('w, lifecycle_error, 'a) eff \<Rightarrow> ('w, 'r, 'a) lc" where
  "on_world m s = (case m (world s) of (r, w) \<Rightarrow> (r, s\<lparr>world := w\<rparr>))"

definition ask :: "('w \<Rightarrow> 'a \<times> 'w) \<Rightarrow> ('w, 'r, 'a) lc" where
  "ask m s = (case m (world s) of (a, w) \<Rightarrow> (Inr a, s\<lparr>world := w\<rparr>))"

definition has_call :: "string \<Rightarrow> (string \<times> 'r token_state) list \<Rightarrow> bool" where
  "has_call c sts \<longleftrightarrow> list_ex (\<lambda>(t, st). token_call_id st = c) sts"

subsection \<open>Canonical tool results\<close>

fun validate_optional_result_fields :: "json_map \<Rightarrow> (lifecycle_error, unit) result" where
  "validate_optional_result_fields obj =
     (if (case map_of obj ''truncated'' of Some v \<Rightarrow> \<not> is_boolean v | None \<Rightarrow> False) then
        Inl (InvalidMetadata ''`truncated` must be a boolean'')
      else if (case map_of obj ''data'' of Some v \<Rightarrow> \<not> is_object v | None \<Rightarrow> False) then
        Inl (InvalidMetadata ''`data` must be a map'')
      else
        (case map_of obj ''artifacts'' of
           None \<Rightarrow> Inr ()
         | Some v \<Rightarrow>
             (case as_array v of
                None \<Rightarrow> Inl (InvalidMetadata ''`artifacts` must be an array of strings'')
              | Some items \<Rightarrow>
                  if list_ex (\<lambda>item. \<not> is_string item) items
                  then Inl (InvalidMetadata ''`artifacts` must be an array of strings'')
                  else Inr ())))"

definition validate_failure_fields :: "json_map \<Rightarrow> (lifecycle_error, unit) result" where
  "validate_failure_fields obj =
     (let error = (case map_of obj ''error'' of None \<Rightarrow> None | Some v \<Rightarrow> as_object v) in
      case (case error of None \<Rightarrow> None | Some e \<Rightarrow> map_of e ''code'') of
        Some (JString (c # cs)) \<Rightarrow>
          (if (case error of
                 None \<Rightarrow> False
               | Some e \<Rightarrow> (case map_of e ''message'' of None \<Rightarrow> False | Some m \<Rightarrow> \<not> is_string m))
           then Inl (InvalidMetadata ''`error.message` must be a string'')
           else if (case map_of obj ''content'' of None \<Rightarrow> False | Some c \<Rightarrow> \<not> is_string c)
           then Inl (InvalidMetadata ''failure `content` must be a string'')
           else Inr ())
      | _ \<Rightarrow> Inl (InvalidMetadata ''failure result requires string `error.code`''))"

definition validate_canonical_result :: "json \<Rightarrow> (lifecycle_error, unit) result" where
  "validate_canonical_result v =
     (case as_object v of
        None \<Rightarrow> Inl (InvalidMetadata ''tool result must be a map'')
      | Some obj \<Rightarrow>
          (case map_of obj ''ok'' of
             Some (JBool ok) \<Rightarrow>
               (if ok then
                  (case map_of obj ''content'' of
                     Some (JString s) \<Rightarrow> validate_optional_result_fields obj
                   | _ \<Rightarrow> Inl (InvalidMetadata ''success result requires string `content`''))
                else
                  (case validate_failure_fields obj of
                     Inl e \<Rightarrow> Inl e
                   | Inr u \<Rightarrow> validate_optional_result_fields obj))
           | Some _ \<Rightarrow> Inl (InvalidMetadata ''`ok` must be a boolean'')
           | None \<Rightarrow> Inl (InvalidMetadata ''`ok` is required'')))"

fun should_rollback_unpublished :: "lifecycle_error \<Rightarrow> bool" where
  "should_rollback_unpublished Cancelled = True"
| "should_rollback_unpublished DeadlineElapsed = True"
| "should_rollback_unpublished ResultTooLarge = True"
| "should_rollback_unpublished (ResultCommitFailed _) = True"
| "should_rollback_unpublished _ = False"

subsection \<open>Prepare\<close>

definition validate_approval_facts ::
  "('w, 'r) lifecycle_deps \<Rightarrow> capability_owner \<Rightarrow> prepare_metadata \<Rightarrow> ('w, 'r, unit) lc" where
  "validate_approval_facts d ow md =
     with_state (\<lambda>s.
     and_then (ensure (ow = lc_owner s \<and> run_id md = run (lc_owner s))
                 (OwnerMismatch (owner_key (lc_owner s)) (owner_key ow))) (\<lambda>_.
     and_then (on_world (assert_active_run (dep_durable d) (run_id md))) (\<lambda>_.
     and_then (on_world (prepare_parent (dep_durable d) (run_id md) (call_id md) (tool_name md))) (\<lambda>_.
     and_then (ensure (registry_identity md = lc_registry_identity s) RegistryMismatch) (\<lambda>_.
     and_then (ensure (call_id md \<noteq> [] \<and> tool_name md \<noteq> [])
                 (InvalidMetadata ''call_id and tool name are required'')) (\<lambda>_.
     and_then (ensure (length (summary md) \<le> max_summary_bytes (lc_limits s))
                 (InvalidMetadata ''summary exceeds the configured bound'')) (\<lambda>_.
     and_then (ask (clk_now_ms (dep_clock d))) (\<lambda>now.
     and_then (ensure (now < lc_deadline_ms s) DeadlineElapsed) (\<lambda>_.
     and_then (ask (dep_cancellation d)) (\<lambda>cancelled.
     ensure (\<not> cancelled) Cancelled))))))))))"

definition replay_completed ::
  "('w, 'r) lifecycle_deps \<Rightarrow> capability_owner \<Rightarrow> prepare_metadata \<Rightarrow> ('w, 'r, bool) lc" where
  "replay_completed d ow md =
     and_then (validate_approval_facts d ow md) (\<lambda>_.
     and_then (on_world (replay_result (dep_durable d) (run_id md) (call_id md) (tool_name md))) (\<lambda>rep.
     ret (rep \<noteq> None)))"

definition attest_approval ::
  "('w, 'r) lifecycle_deps \<Rightarrow> capability_owner \<Rightarrow> prepare_metadata \<Rightarrow> ('w, 'r, unit) lc" where
  "attest_approval d ow md =
     and_then (validate_approval_facts d ow md) (\<lambda>_.
     and_then (on_world (replay_result (dep_durable d) (run_id md) (call_id md) (tool_name md))) (\<lambda>rep.
     and_then (ensure (rep = None)
                 (ApprovalDenied ''completed tool call cannot receive a new approval'')) (\<lambda>_.
     and_then (reads (\<lambda>s. has_call (call_id md) (token_states s))) (\<lambda>unresolved.
     and_then (ensure (\<not> unresolved) UnresolvedCall) (\<lambda>_.
     and_then (reads generation) (\<lambda>gen.
     and_then (ask (clk_now_ms (dep_clock d))) (\<lambda>now_ms.
     and_then (reads lc_deadline_ms) (\<lambda>deadline_ms.
     on_world (ap_attest (dep_approval d) ow md gen now_ms deadline_ms)))))))))"

definition started_record :: "prepare_metadata \<Rightarrow> u64 \<Rightarrow> durable_started" where
  "started_record md gen =
     \<lparr>ds_run_id = run_id md, ds_call_id = call_id md, ds_tool_name = tool_name md,
      ds_argument_digest = argument_digest md, ds_registry_identity = registry_identity md,
      ds_risk_class = risk_class md, ds_summary = summary md, ds_generation = gen\<rparr>"

definition claims_for ::
  "('w, 'r) lifecycle \<Rightarrow> prepare_metadata \<Rightarrow> capability_risk \<Rightarrow> u64 \<Rightarrow> instant \<Rightarrow> token_claims" where
  "claims_for s md cl gen dl =
     \<lparr>tc_owner = lc_owner s, tc_call_id = call_id md, tc_tool_name = tool_name md,
      tc_argument_digest = argument_digest md, tc_registry_identity = registry_identity md,
      tc_risk_ceiling = cl, tc_output_budget = max_output_bytes (lc_limits s),
      tc_generation = gen, tc_deadline = dl, tc_deadline_ms = lc_deadline_ms s,
      tc_workspace = lc_workspace s\<rparr>"

text \<open>The second half of \<open>prepare\<close>: everything after the durable replay check.\<close>

definition issue_token ::
  "('w, 'r) lifecycle_deps \<Rightarrow> prepare_metadata \<Rightarrow> capability_risk \<Rightarrow> u64 \<Rightarrow> ('w, 'r, prepare_outcome) lc" where
  "issue_token d md cl gen =
     and_then (ask (dep_tokens d)) (\<lambda>token.
     and_then (ask (clk_now_ms (dep_clock d))) (\<lambda>now_ms.
     and_then (reads lc_deadline_ms) (\<lambda>deadline_ms.
     and_then (ask (clk_now (dep_clock d))) (\<lambda>now.
     and_then (case instant_checked_add now (sat_sub64 deadline_ms now_ms) of
                 Some t \<Rightarrow> ret t | None \<Rightarrow> ask (clk_now (dep_clock d))) (\<lambda>deadline.
     and_then (modify (\<lambda>s. s\<lparr>token_states :=
                 AList.update token (Open (claims_for s md cl gen deadline) []) (token_states s)\<rparr>)) (\<lambda>_.
     and_then (modify (\<lambda>s. s\<lparr>call_count := call_count s + 1\<rparr>)) (\<lambda>_.
     ret (ExecuteOutcome token deadline_ms))))))))"

definition admit_call ::
  "('w, 'r) lifecycle_deps \<Rightarrow> prepare_metadata \<Rightarrow> ('w, 'r, prepare_outcome) lc" where
  "admit_call d md =
     with_state (\<lambda>s.
     and_then (ensure (\<not> has_call (call_id md) (token_states s)) UnresolvedCall) (\<lambda>_.
     and_then (ask (clk_now_ms (dep_clock d))) (\<lambda>now.
     and_then (ensure (now < lc_deadline_ms s) DeadlineElapsed) (\<lambda>_.
     and_then (ask (dep_cancellation d)) (\<lambda>cancelled.
     and_then (ensure (\<not> cancelled) Cancelled) (\<lambda>_.
     and_then (ensure (registry_identity md = lc_registry_identity s) RegistryMismatch) (\<lambda>_.
     and_then (ensure (call_id md \<noteq> [] \<and> tool_name md \<noteq> [])
                 (InvalidMetadata ''call_id and tool name are required'')) (\<lambda>_.
     and_then (ensure (length (summary md) \<le> max_summary_bytes (lc_limits s))
                 (InvalidMetadata ''summary exceeds the configured bound'')) (\<lambda>_.
     and_then (reads call_count) (\<lambda>count.
     and_then (ensure (count < max_tool_calls (lc_limits s)) LimitExceeded) (\<lambda>_.
     and_then (reads generation) (\<lambda>gen.
     and_then (ask (clk_now_ms (dep_clock d))) (\<lambda>now_ms.
     and_then (on_world (ap_authorize_at (dep_approval d) md gen now_ms)) (\<lambda>cl.
     and_then (reads generation) (\<lambda>gen'.
     and_then (ensure (gen = gen')
                 (ApprovalDenied ''approval context changed during authorization'')) (\<lambda>_.
     and_then (on_world (commit_started (dep_durable d) (started_record md gen))) (\<lambda>_.
     issue_token d md cl gen)))))))))))))))))"

definition prepare ::
  "('w, 'r) lifecycle_deps \<Rightarrow> capability_owner \<Rightarrow> prepare_metadata \<Rightarrow> ('w, 'r, prepare_outcome) lc" where
  "prepare d ow md =
     with_state (\<lambda>s.
     and_then (ensure (ow = lc_owner s)
                 (OwnerMismatch (owner_key (lc_owner s)) (owner_key ow))) (\<lambda>_.
     and_then (ensure (run_id md = run (lc_owner s))
                 (OwnerMismatch (owner_key (lc_owner s)) (with_run (lc_owner s) (run_id md)))) (\<lambda>_.
     and_then (on_world (assert_active_run (dep_durable d) (run_id md))) (\<lambda>_.
     and_then (on_world (prepare_parent (dep_durable d) (run_id md) (call_id md) (tool_name md))) (\<lambda>_.
     and_then (on_world (replay_result (dep_durable d) (run_id md) (call_id md) (tool_name md))) (\<lambda>rep.
     (case rep of Some r \<Rightarrow> ret (ReplayOutcome r) | None \<Rightarrow> admit_call d md)))))))"

subsection \<open>Commit\<close>

text \<open>The four-way match on a token's state that \<open>commit\<close>, \<open>authorize\<close> and \<open>lease\<close> share.\<close>

definition find_open :: "string \<Rightarrow> ('w, 'r, token_claims) lc" where
  "find_open token s =
     (case map_of (token_states s) token of
        Some (Open claims _) \<Rightarrow> (Inr claims, s)
      | Some (Committed _) \<Rightarrow> (Inl DuplicateClose, s)
      | Some (TokenInterrupted _) \<Rightarrow> (Inl Interrupted, s)
      | None \<Rightarrow> (Inl TokenUnknown, s))"

definition take_open :: "string \<Rightarrow> token_claims \<Rightarrow> ('w, 'r, 'r list) lc" where
  "take_open token claims s =
     (case map_of (token_states s) token of
        Some (Open _ rs) \<Rightarrow>
          (Inr rs, s\<lparr>token_states := AList.update token (Committed (tc_call_id claims)) (token_states s)\<rparr>)
      | _ \<Rightarrow> (Inl TokenUnknown, s))"

definition roll_back_all :: "('w, 'r) lifecycle_deps \<Rightarrow> 'r list \<Rightarrow> ('w, 'r) lifecycle \<Rightarrow> ('w, 'r) lifecycle" where
  "roll_back_all d rs s = s\<lparr>world := fold (dep_rollback d) rs (world s)\<rparr>"

definition committed_envelope :: "string \<Rightarrow> json \<Rightarrow> json" where
  "committed_envelope c v =
     jobject [(''ok'', JBool True), (''kind'', JString ''committed''), (''call_id'', JString c),
              (''result'', v)]"

definition lift_result :: "(lifecycle_error, 'a) result \<Rightarrow> ('w, 'r, 'a) lc" where
  "lift_result r s = (r, s)"

definition publish_result ::
  "('w, 'r) lifecycle_deps \<Rightarrow> token_claims \<Rightarrow> 'r list \<Rightarrow> json \<Rightarrow> ('w, 'r, commit_outcome) lc" where
  "publish_result d claims rs v s =
     (case on_world (commit_result (dep_durable d) (tc_call_id claims) v) s of
        (Inr committed, s') \<Rightarrow>
          (Inr \<lparr>envelope = committed_envelope (tc_call_id claims) committed\<rparr>, s')
      | (Inl e, s') \<Rightarrow> (Inl e, roll_back_all d rs s'))"

definition commit_inner ::
  "('w, 'r) lifecycle_deps \<Rightarrow> capability_owner \<Rightarrow> string \<Rightarrow> json \<Rightarrow> ('w, 'r, commit_outcome) lc" where
  "commit_inner d ow token v =
     with_state (\<lambda>s.
     and_then (ensure (ow = lc_owner s)
                 (OwnerMismatch (owner_key (lc_owner s)) (owner_key ow))) (\<lambda>_.
     and_then (find_open token) (\<lambda>claims.
     and_then (ensure (tc_owner claims = ow)
                 (OwnerMismatch (owner_key (tc_owner claims)) (owner_key ow))) (\<lambda>_.
     and_then (ensure (dep_json_size d v \<le> tc_output_budget claims) ResultTooLarge) (\<lambda>_.
     and_then (ask (clk_now_ms (dep_clock d))) (\<lambda>now.
     and_then (ensure (now < tc_deadline_ms claims) DeadlineElapsed) (\<lambda>_.
     and_then (ask (dep_cancellation d)) (\<lambda>cancelled.
     and_then (ensure (\<not> cancelled) Cancelled) (\<lambda>_.
     and_then (lift_result (validate_canonical_result v)) (\<lambda>_.
     and_then (take_open token claims) (\<lambda>rs.
     publish_result d claims rs v)))))))))))"

definition rollback_unpublished :: "('w, 'r) lifecycle_deps \<Rightarrow> string \<Rightarrow> ('w, 'r) lifecycle \<Rightarrow> ('w, 'r) lifecycle" where
  "rollback_unpublished d token s =
     (case map_of (token_states s) token of
        Some (Open _ rs) \<Rightarrow> roll_back_all d rs s
      | _ \<Rightarrow> s)"

definition commit ::
  "('w, 'r) lifecycle_deps \<Rightarrow> capability_owner \<Rightarrow> string \<Rightarrow> json \<Rightarrow> ('w, 'r, commit_outcome) lc" where
  "commit d ow token v s =
     (case commit_inner d ow token v s of
        (Inr r, s') \<Rightarrow> (Inr r, s')
      | (Inl e, s') \<Rightarrow>
          (Inl e, if should_rollback_unpublished e then rollback_unpublished d token s' else s'))"

subsection \<open>Authorise, resources, recovery\<close>

definition authorize ::
  "('w, 'r) lifecycle_deps \<Rightarrow> capability_owner \<Rightarrow> string \<Rightarrow> capability_risk \<Rightarrow> ('w, 'r, token_claims) lc" where
  "authorize d ow token rq =
     with_state (\<lambda>s.
     and_then (ensure (ow = lc_owner s)
                 (OwnerMismatch (owner_key (lc_owner s)) (owner_key ow))) (\<lambda>_.
     and_then (ask (dep_cancellation d)) (\<lambda>cancelled.
     and_then (ensure (\<not> cancelled) Cancelled) (\<lambda>_.
     and_then (find_open token) (\<lambda>claims.
     and_then (ensure (tc_owner claims = ow)
                 (OwnerMismatch (owner_key (tc_owner claims)) (owner_key ow))) (\<lambda>_.
     and_then (ask (clk_now_ms (dep_clock d))) (\<lambda>now.
     and_then (ensure (now < tc_deadline_ms claims) DeadlineElapsed) (\<lambda>_.
     and_then (reads generation) (\<lambda>gen.
     and_then (ensure (tc_generation claims = gen) Interrupted) (\<lambda>_.
     and_then (ensure (rq \<le> tc_risk_ceiling claims)
                 (ApprovalCeiling rq (tc_risk_ceiling claims))) (\<lambda>_.
     ret claims)))))))))))"

definition register_resource :: "('w, 'r) lifecycle_deps \<Rightarrow> string \<Rightarrow> 'r \<Rightarrow> ('w, 'r, unit) lc" where
  "register_resource d token r s =
     (case map_of (token_states s) token of
        Some (Open claims rs) \<Rightarrow>
          (Inr (), s\<lparr>token_states := AList.update token (Open claims (rs @ [r])) (token_states s)\<rparr>)
      | Some (Committed _) \<Rightarrow> (Inl DuplicateClose, s)
      | Some (TokenInterrupted _) \<Rightarrow> (Inl Interrupted, s\<lparr>world := dep_release d r (world s)\<rparr>)
      | None \<Rightarrow> (Inl TokenUnknown, s\<lparr>world := dep_release d r (world s)\<rparr>))"

definition release_resources :: "('w, 'r) lifecycle_deps \<Rightarrow> 'r list \<Rightarrow> ('w, 'r) lifecycle \<Rightarrow> ('w, 'r) lifecycle" where
  "release_resources d rs s = s\<lparr>world := fold (dep_release d) rs (world s)\<rparr>"

fun open_calls :: "(string \<times> 'r token_state) list \<Rightarrow> (string \<times> string) list" where
  "open_calls [] = []"
| "open_calls ((t, st) # sts) =
     (case st of Open claims _ \<Rightarrow> (t, tc_call_id claims) # open_calls sts | _ \<Rightarrow> open_calls sts)"

fun interrupt_each ::
  "(string \<times> string) list \<Rightarrow> (string \<times> 'r token_state) list \<Rightarrow> 'r list \<Rightarrow>
   (string \<times> 'r token_state) list \<times> 'r list" where
  "interrupt_each [] sts rs = (sts, rs)"
| "interrupt_each ((t, c) # tcs) sts rs =
     interrupt_each tcs (AList.update t (TokenInterrupted c) sts)
       (case map_of sts t of Some (Open _ owned) \<Rightarrow> rs @ owned | _ \<Rightarrow> rs)"

fun interrupt_calls :: "('w, 'r) lifecycle_deps \<Rightarrow> string list \<Rightarrow> string list \<Rightarrow> ('w, 'r, string list) lc" where
  "interrupt_calls d [] recovered = ret recovered"
| "interrupt_calls d (c # cs) recovered =
     and_then (on_world (durable_interrupt (dep_durable d) c)) (\<lambda>_.
     interrupt_calls d cs (recovered @ [c]))"

definition recover_open_tokens :: "('w, 'r) lifecycle_deps \<Rightarrow> ('w, 'r, string list) lc" where
  "recover_open_tokens d s =
     (let opn = open_calls (token_states s);
          (sts, rs) = interrupt_each opn (token_states s) [] in
      and_then (interrupt_calls d (map snd opn) []) (\<lambda>recovered.
      and_then (modify (\<lambda>s. s\<lparr>generation := generation s + 1\<rparr>)) (\<lambda>_.
      ret recovered)) (release_resources d rs (s\<lparr>token_states := sts\<rparr>)))"

definition interrupt_token :: "('w, 'r) lifecycle_deps \<Rightarrow> string \<Rightarrow> ('w, 'r, unit) lc" where
  "interrupt_token d token s =
     (case map_of (token_states s) token of
        Some (Open claims rs) \<Rightarrow>
          on_world (durable_interrupt (dep_durable d) (tc_call_id claims))
            (release_resources d rs
              (s\<lparr>token_states := AList.update token (TokenInterrupted (tc_call_id claims)) (token_states s)\<rparr>))
      | Some _ \<Rightarrow> (Inr (), s)
      | None \<Rightarrow> (Inl TokenUnknown, s))"

record execution_lease =
  lease_token :: string
  lease_closed :: bool

definition lease :: "string \<Rightarrow> ('w, 'r, execution_lease) lc" where
  "lease token = and_then (find_open token) (\<lambda>_. ret \<lparr>lease_token = token, lease_closed = False\<rparr>)"

definition disarm :: "execution_lease \<Rightarrow> execution_lease" where
  "disarm l = l\<lparr>lease_closed := True\<rparr>"

definition drop_lease :: "('w, 'r) lifecycle_deps \<Rightarrow> execution_lease \<Rightarrow> ('w, 'r) lifecycle \<Rightarrow> ('w, 'r) lifecycle" where
  "drop_lease d l s = (if \<not> lease_closed l then snd (interrupt_token d (lease_token l) s) else s)"

subsection \<open>Steps\<close>

text \<open>
  One step of the engine: a public method, the drop of a lease, or a change of the world by
  somebody else. The token issuer never repeats an identifier (\<open>Uuid::new_v4\<close>): a token that
  \<open>prepare\<close> returns is not one the engine already knows.
\<close>

inductive lc_step :: "('w, 'r) lifecycle_deps \<Rightarrow> ('w, 'r) lifecycle \<Rightarrow> ('w, 'r) lifecycle \<Rightarrow> bool"
  for d where
  prepared: "prepare d ow md s = (r, s') \<Longrightarrow>
     (\<And>t dl. r = Inr (ExecuteOutcome t dl) \<Longrightarrow> map_of (token_states s) t = None) \<Longrightarrow> lc_step d s s'"
| attested: "attest_approval d ow md s = (r, s') \<Longrightarrow> lc_step d s s'"
| replay_checked: "replay_completed d ow md s = (r, s') \<Longrightarrow> lc_step d s s'"
| committed: "commit d ow t v s = (r, s') \<Longrightarrow> lc_step d s s'"
| authorized: "authorize d ow t rq s = (r, s') \<Longrightarrow> lc_step d s s'"
| registered: "register_resource d t x s = (r, s') \<Longrightarrow> lc_step d s s'"
| recovered: "recover_open_tokens d s = (r, s') \<Longrightarrow> lc_step d s s'"
| dropped: "lc_step d s (drop_lease d l s)"
| environment: "lc_step d s (s\<lparr>world := w\<rparr>)"

end
