(* ===== verification/Content_Hash.thy ===== *)
theory Content_Hash
  imports Agent_Prelude
begin

unbundle bit_operations_syntax

section \<open>SHA-256 (\<open>capabilities/hash.rs\<close> and \<open>registry.rs\<close>)\<close>

text \<open>
  The digest helper that names artifacts and fingerprints the tool registry. The code hashes
  the full blocks of the input first and then one or two final blocks it assembles in a
  128-byte buffer; the message schedule is filled in place. \<open>fips_sha256\<close> is the standard's
  description: pad the message, cut it into blocks, and fold the compression function over
  them, with the schedule given by its recurrence. The main result is that the code computes
  the standard's digest. The tree has two copies of the routine; both are translated.
\<close>

type_synonym sha_state =
  "u32 \<times> u32 \<times> u32 \<times> u32 \<times> u32 \<times> u32 \<times> u32 \<times> u32"

definition SHA_INITIAL :: sha_state where
  "SHA_INITIAL =
    (0x6a09e667, 0xbb67ae85, 0x3c6ef372, 0xa54ff53a,
     0x510e527f, 0x9b05688c, 0x1f83d9ab, 0x5be0cd19)"

text \<open>
  The table \<open>ROUND_CONSTANTS\<close> of \<open>sha256_compress\<close>. Its 64 entries are the first 32 bits of the
  fractional parts of the cube roots of the first 64 primes; the definition computes them by
  that rule, and \<open>ROUND_CONSTANTS_entries\<close> compares entries with the table of the source.
\<close>

definition cbrt_bit :: "nat \<Rightarrow> nat \<Rightarrow> nat \<Rightarrow> nat" where
  "cbrt_bit n b r = (if (r + 2 ^ b) * (r + 2 ^ b) * (r + 2 ^ b) \<le> n then r + 2 ^ b else r)"

definition icbrt :: "nat \<Rightarrow> nat" where
  "icbrt n = fold (cbrt_bit n) (rev [0..<35]) 0"

definition first_primes :: "nat list" where
  "first_primes = filter (\<lambda>n. list_all (\<lambda>d. n mod d \<noteq> 0) [2..<n]) [2..<312]"

definition ROUND_CONSTANTS :: "u32 list" where
  "ROUND_CONSTANTS = map (\<lambda>p. of_nat (icbrt (p * 2 ^ 96))) first_primes"

definition be_byte :: "char \<Rightarrow> u32" where
  "be_byte c = of_char c"

definition from_be_bytes :: "char \<Rightarrow> char \<Rightarrow> char \<Rightarrow> char \<Rightarrow> u32" where
  "from_be_bytes b0 b1 b2 b3 =
     push_bit 24 (be_byte b0) OR push_bit 16 (be_byte b1) OR push_bit 8 (be_byte b2) OR be_byte b3"

text \<open>\<open>u64::to_be_bytes\<close>: the most significant byte first.\<close>

definition to_be_bytes :: "u64 \<Rightarrow> string" where
  "to_be_bytes w = map (\<lambda>i. char_of (unat (drop_bit (8 * (7 - i)) w) mod 256)) [0..<8]"

definition small_sigma0 :: "u32 \<Rightarrow> u32" where
  "small_sigma0 x = word_rotr 7 x XOR word_rotr 18 x XOR drop_bit 3 x"

definition small_sigma1 :: "u32 \<Rightarrow> u32" where
  "small_sigma1 x = word_rotr 17 x XOR word_rotr 19 x XOR drop_bit 10 x"

text \<open>The first 16 words are read from the block; the other 48 are computed in place.\<close>

definition schedule_start :: "string \<Rightarrow> u32 list" where
  "schedule_start block =
     map (\<lambda>i. from_be_bytes (block ! (i * 4)) (block ! (i * 4 + 1)) (block ! (i * 4 + 2)) (block ! (i * 4 + 3)))
       [0..<16] @ replicate 48 0"

definition schedule_step :: "nat \<Rightarrow> u32 list \<Rightarrow> u32 list" where
  "schedule_step i w =
     w[i := w ! (i - 16) + small_sigma0 (w ! (i - 15)) + w ! (i - 7) + small_sigma1 (w ! (i - 2))]"

definition schedule :: "string \<Rightarrow> u32 list" where
  "schedule block = fold schedule_step [16..<64] (schedule_start block)"

definition sha_round :: "u32 \<Rightarrow> u32 \<Rightarrow> sha_state \<Rightarrow> sha_state" where
  "sha_round k w = (\<lambda>(a, b, c, d, e, f, g, h).
     let s1 = word_rotr 6 e XOR word_rotr 11 e XOR word_rotr 25 e;
         choice = (e AND f) XOR (NOT e AND g);
         t1 = h + s1 + choice + k + w;
         s0 = word_rotr 2 a XOR word_rotr 13 a XOR word_rotr 22 a;
         majority = (a AND b) XOR (a AND c) XOR (b AND c);
         t2 = s0 + majority
     in (t1 + t2, a, b, c, d + t1, e, f, g))"

definition sha_add :: "sha_state \<Rightarrow> sha_state \<Rightarrow> sha_state" where
  "sha_add = (\<lambda>(a, b, c, d, e, f, g, h) (a', b', c', d', e', f', g', h').
     (a + a', b + b', c + c', d + d', e + e', f + f', g + g', h + h'))"

definition sha256_compress :: "string \<Rightarrow> sha_state \<Rightarrow> sha_state" where
  "sha256_compress block st =
     (let w = schedule block in
      sha_add st (fold (\<lambda>i. sha_round (ROUND_CONSTANTS ! i) (w ! i)) [0..<64] st))"

text \<open>\<open>slice::as_chunks::<64>\<close>.\<close>

function as_chunks64 :: "string \<Rightarrow> string list \<times> string" where
  "as_chunks64 bs =
     (if length bs < 64 then ([], bs)
      else (case as_chunks64 (drop 64 bs) of (cs, r) \<Rightarrow> (take 64 bs # cs, r)))"
  by pat_completeness auto
termination by (relation "measure length") auto

definition copy_at :: "nat \<Rightarrow> string \<Rightarrow> string \<Rightarrow> string" where
  "copy_at i src dst = take i dst @ src @ drop (i + length src) dst"

definition final_blocks :: "string \<Rightarrow> u64 \<Rightarrow> string" where
  "final_blocks remainder bit_length =
     (let buf = copy_at 0 remainder (replicate 128 (CHR 0x00));
          buf = buf[length remainder := CHR 0x80];
          final_len = (if length remainder < 56 then 64 else 128);
          buf = copy_at (final_len - 8) (to_be_bytes bit_length) buf
      in take final_len buf)"

definition hex_digit :: "nat \<Rightarrow> char" where
  "hex_digit n = ''0123456789abcdef'' ! n"

text \<open>\<open>{word:08x}\<close>.\<close>

definition hex8 :: "u32 \<Rightarrow> string" where
  "hex8 w = map (\<lambda>i. hex_digit (unat (drop_bit (4 * (7 - i)) w) mod 16)) [0..<8]"

definition digest_hex :: "sha_state \<Rightarrow> string" where
  "digest_hex = (\<lambda>(a, b, c, d, e, f, g, h). concat (map hex8 [a, b, c, d, e, f, g, h]))"

definition sha256_hex :: "string \<Rightarrow> string" where
  "sha256_hex bytes =
     (let bit_length = of_nat (length bytes) * 8;
          (chunks, remainder) = as_chunks64 bytes;
          st = fold sha256_compress chunks SHA_INITIAL;
          (final_chunks, _) = as_chunks64 (final_blocks remainder bit_length)
      in digest_hex (fold sha256_compress final_chunks st))"

definition content_hash :: "string \<Rightarrow> string" where
  "content_hash bytes = ''sha256:'' @ sha256_hex bytes"

subsection \<open>The copy in the registry\<close>

definition registry_sha256_compress :: "string \<Rightarrow> sha_state \<Rightarrow> sha_state" where
  "registry_sha256_compress block =
     (\<lambda>(h0, h1, h2, h3, h4, h5, h6, h7).
        case fold (\<lambda>i. sha_round (ROUND_CONSTANTS ! i) (schedule block ! i)) [0..<64]
               (h0, h1, h2, h3, h4, h5, h6, h7) of
          (a, b, c, d, e, f, g, h) \<Rightarrow>
            (h0 + a, h1 + b, h2 + c, h3 + d, h4 + e, h5 + f, h6 + g, h7 + h))"

definition registry_sha256_hex :: "string \<Rightarrow> string" where
  "registry_sha256_hex bytes =
     (let st = fold registry_sha256_compress (fst (as_chunks64 bytes)) SHA_INITIAL;
          buf = final_blocks (snd (as_chunks64 bytes)) (of_nat (length bytes) * 8)
      in digest_hex (fold registry_sha256_compress (fst (as_chunks64 buf)) st))"

subsection \<open>The standard\<close>

fun fips_schedule :: "(nat \<Rightarrow> u32) \<Rightarrow> nat \<Rightarrow> u32" where
  "fips_schedule M t =
     (if t < 16 then M t
      else small_sigma1 (fips_schedule M (t - 2)) + fips_schedule M (t - 7)
         + small_sigma0 (fips_schedule M (t - 15)) + fips_schedule M (t - 16))"

declare fips_schedule.simps [simp del]

definition block_word :: "string \<Rightarrow> nat \<Rightarrow> u32" where
  "block_word block t =
     from_be_bytes (block ! (4 * t)) (block ! (4 * t + 1)) (block ! (4 * t + 2)) (block ! (4 * t + 3))"

definition fips_compress :: "string \<Rightarrow> sha_state \<Rightarrow> sha_state" where
  "fips_compress block st =
     sha_add st (fold (\<lambda>t. sha_round (ROUND_CONSTANTS ! t) (fips_schedule (block_word block) t)) [0..<64] st)"

text \<open>
  Append one bit (as the byte 0x80), the smallest number of zero bytes that leaves room for
  the length at the end of a block, and the length in bits as a 64-bit big-endian number.
\<close>

definition fips_pad :: "string \<Rightarrow> string" where
  "fips_pad m =
     m @ [CHR 0x80] @ replicate ((119 - length m mod 64) mod 64) (CHR 0x00)
       @ to_be_bytes (of_nat (8 * length m))"

function blocks64 :: "string \<Rightarrow> string list" where
  "blocks64 m = (if m = [] then [] else take 64 m # blocks64 (drop 64 m))"
  by pat_completeness auto
termination by (relation "measure length") auto

declare as_chunks64.simps [simp del] blocks64.simps [simp del]

definition fips_sha256 :: "string \<Rightarrow> string" where
  "fips_sha256 m = digest_hex (fold fips_compress (blocks64 (fips_pad m)) SHA_INITIAL)"

subsection \<open>The schedule filled in place\<close>

lemma ROUND_CONSTANTS_entries:
  "of_nat (icbrt (2 * 2 ^ 96)) = (0x428a2f98 :: u32)" "of_nat (icbrt (3 * 2 ^ 96)) = (0x71374491 :: u32)"
  "of_nat (icbrt (311 * 2 ^ 96)) = (0xc67178f2 :: u32)"
  by (simp_all add: icbrt_def cbrt_bit_def upt_rec)

lemma length_schedule_start [simp]: "length (schedule_start block) = 64"
  by (simp add: schedule_start_def)

lemma schedule_start_nth: "t < 16 \<Longrightarrow> schedule_start block ! t = block_word block t"
  by (simp add: schedule_start_def block_word_def nth_append mult.commute)

lemma schedule_prefix:
  assumes "16 \<le> n" "n \<le> 64"
  shows "length (fold schedule_step [16..<n] (schedule_start block)) = 64 \<and>
         (\<forall>t < n. fold schedule_step [16..<n] (schedule_start block) ! t = fips_schedule (block_word block) t)"
  using assms
proof (induction n rule: dec_induct)
  case base
  then show ?case by (simp add: schedule_start_nth fips_schedule.simps [where t = t for t])
next
  case (step n)
  let ?w = "fold schedule_step [16..<n] (schedule_start block)" and ?W = "fips_schedule (block_word block)"
  have IH: "length ?w = 64" "\<And>t. t < n \<Longrightarrow> ?w ! t = ?W t" using step by auto
  have "?W n = ?W (n - 16) + small_sigma0 (?W (n - 15)) + ?W (n - 7) + small_sigma1 (?W (n - 2))"
    using step.hyps by (subst fips_schedule.simps) (simp add: ac_simps)
  then have "schedule_step n ?w = ?w[n := ?W n]"
    using IH step.hyps by (simp add: schedule_step_def)
  then show ?case
    using IH step by (auto simp: nth_list_update less_Suc_eq)
qed

lemma schedule_fips: "t < 64 \<Longrightarrow> schedule block ! t = fips_schedule (block_word block) t"
  using schedule_prefix [of 64 block] by (simp add: schedule_def)

lemma fold_cong_upt:
  "(\<And>i. i < n \<Longrightarrow> f i = g i) \<Longrightarrow> fold f [0..<n] s = fold g [0..<n] s"
  by (rule fold_cong) auto

lemma sha256_compress_fips: "sha256_compress = fips_compress"
  unfolding sha256_compress_def fips_compress_def Let_def fun_eq_iff
  by (intro allI arg_cong2 [where f = sha_add] refl fold_cong_upt) (simp add: schedule_fips)

lemma registry_compress_eq: "registry_sha256_compress = sha256_compress"
  by (auto simp: fun_eq_iff registry_sha256_compress_def sha256_compress_def sha_add_def
           split: prod.splits)

subsection \<open>Blocks and padding\<close>

lemma as_chunks64_all:
  "as_chunks64 bs = (cs, r) \<Longrightarrow>
   concat cs @ r = bs \<and> length r < 64 \<and> (\<forall>c \<in> set cs. length c = 64) \<and> length bs mod 64 = length r"
proof (induction bs arbitrary: cs r rule: as_chunks64.induct)
  case (1 bs)
  show ?case
  proof (cases "length bs < 64")
    case True
    then show ?thesis using 1(2) by (simp add: as_chunks64.simps [of bs])
  next
    case False
    obtain cs' r' where rec: "as_chunks64 (drop 64 bs) = (cs', r')" by fastforce
    with False 1(2) have "cs = take 64 bs # cs'" "r = r'" by (simp_all add: as_chunks64.simps [of bs])
    moreover have IH: "concat cs' @ r' = drop 64 bs" "length r' < 64" "\<forall>c \<in> set cs'. length c = 64"
      "length (drop 64 bs) mod 64 = length r'"
      using 1(1) [OF False rec] by blast+
    moreover have "take 64 bs @ concat cs' @ r' = bs" unfolding IH(1) by simp
    moreover have "length (drop 64 bs) mod 64 = length bs mod 64" using False by (simp add: le_mod_geq)
    ultimately show ?thesis using False by (intro conjI) auto
  qed
qed

lemma as_chunks64_spec:
  assumes "as_chunks64 bs = (cs, r)"
  shows "bs = concat cs @ r" and "length r < 64" and "\<forall>c \<in> set cs. length c = 64"
    and "length r = length bs mod 64"
  using as_chunks64_all [OF assms] by simp_all

lemma blocks64_cons: "length c = 64 \<Longrightarrow> blocks64 (c @ m) = c # blocks64 m"
  by (subst blocks64.simps) auto

lemma blocks64_concat: "\<forall>c \<in> set cs. length c = 64 \<Longrightarrow> blocks64 (concat cs @ m) = cs @ blocks64 m"
  by (induction cs) (simp_all add: blocks64_cons)

lemma blocks64_Nil [simp]: "blocks64 [] = []"
  by (simp add: blocks64.simps)

lemma as_chunks64_blocks: "length m mod 64 = 0 \<Longrightarrow> fst (as_chunks64 m) = blocks64 m"
proof -
  obtain cs r where ch: "as_chunks64 m = (cs, r)" by fastforce
  assume "length m mod 64 = 0"
  then have "r = []" using as_chunks64_spec(4) [OF ch] by simp
  then have "m = concat cs @ []" using as_chunks64_spec(1) [OF ch] by simp
  then have "blocks64 m = cs" using blocks64_concat [OF as_chunks64_spec(3) [OF ch], of "[]"] by simp
  then show ?thesis by (simp add: ch)
qed

lemma length_to_be_bytes [simp]: "length (to_be_bytes w) = 8"
  by (simp add: to_be_bytes_def)

lemma buffer_start:
  assumes "length r < N"
  shows "(copy_at 0 r (replicate N z))[length r := x] = r @ x # replicate (N - 1 - length r) z"
proof -
  have "copy_at 0 r (replicate N z) = r @ replicate (N - length r) z"
    by (simp add: copy_at_def)
  also have "\<dots> = r @ z # replicate (N - 1 - length r) z"
    using assms by (simp add: replicate_Suc [symmetric] Suc_diff_Suc del: replicate_Suc)
  finally show ?thesis by (simp add: list_update_append)
qed

lemma buffer_finish:
  assumes "length r + 9 \<le> F" "F \<le> N" "length be = 8"
  shows "take F (copy_at (F - 8) be (r @ x # replicate (N - 1 - length r) z)) =
         r @ [x] @ replicate (F - 9 - length r) z @ be"
proof -
  have "take (F - 8) (r @ x # replicate (N - 1 - length r) z) = r @ x # replicate (F - 9 - length r) z"
    using assms by (simp add: take_Cons' min_def)
  then have "copy_at (F - 8) be (r @ x # replicate (N - 1 - length r) z) =
      (r @ [x] @ replicate (F - 9 - length r) z @ be) @ drop F (r @ x # replicate (N - 1 - length r) z)"
    using assms by (simp add: copy_at_def)
  moreover have "length (r @ [x] @ replicate (F - 9 - length r) z @ be) = F" using assms by simp
  ultimately show ?thesis by (metis append_eq_conv_conj)
qed

lemma final_blocks_pad:
  assumes "length r < 64"
  shows "final_blocks r bl = r @ [CHR 0x80] @ replicate ((119 - length r) mod 64) (CHR 0x00) @ to_be_bytes bl"
proof -
  let ?F = "if length r < 56 then 64 else 128 :: nat"
  have start: "(copy_at 0 r (replicate 128 (CHR 0x00)))[length r := CHR 0x80] =
      r @ CHR 0x80 # replicate (128 - 1 - length r) (CHR 0x00)"
    by (rule buffer_start) (use assms in simp)
  have "final_blocks r bl = r @ [CHR 0x80] @ replicate (?F - 9 - length r) (CHR 0x00) @ to_be_bytes bl"
    unfolding final_blocks_def Let_def start by (rule buffer_finish) (use assms in auto)
  moreover have "?F - 9 - length r = (119 - length r) mod 64"
    using assms by (cases "length r < 56") (simp_all add: le_mod_geq)
  ultimately show ?thesis by simp
qed

lemma fips_pad_blocks:
  assumes "as_chunks64 m = (cs, r)"
  shows "fips_pad m = concat cs @ final_blocks r (of_nat (length m) * 8)"
    and "length (final_blocks r bl) mod 64 = 0"
proof -
  note spec = as_chunks64_spec [OF assms]
  have "fips_pad m = m @ [CHR 0x80] @ replicate ((119 - length r) mod 64) (CHR 0x00)
       @ to_be_bytes (of_nat (length m) * 8)"
    by (simp only: fips_pad_def spec(4) [symmetric] of_nat_mult mult.commute of_nat_numeral)
  also have "\<dots> = concat cs @ r @ [CHR 0x80] @ replicate ((119 - length r) mod 64) (CHR 0x00)
       @ to_be_bytes (of_nat (length m) * 8)"
    by (subst (1) spec(1)) (simp only: append.assoc)
  finally show "fips_pad m = concat cs @ final_blocks r (of_nat (length m) * 8)"
    by (simp only: final_blocks_pad [OF spec(2)])
  have "length (final_blocks r bl) = length r + 1 + (119 - length r) mod 64 + 8"
    by (simp add: final_blocks_pad [OF spec(2)])
  also have "\<dots> = (if length r < 56 then 64 else 128)"
    using spec(2) by (simp add: le_mod_geq)
  finally show "length (final_blocks r bl) mod 64 = 0" by simp
qed

subsection \<open>Correctness\<close>

lemma sha256_hex_fips: "sha256_hex m = fips_sha256 m"
proof -
  obtain cs r where ch: "as_chunks64 m = (cs, r)" by fastforce
  let ?fb = "final_blocks r (of_nat (length m) * 8)"
  have "blocks64 (fips_pad m) = cs @ blocks64 ?fb"
    unfolding fips_pad_blocks(1) [OF ch] by (rule blocks64_concat [OF as_chunks64_spec(3) [OF ch]])
  moreover have "fst (as_chunks64 ?fb) = blocks64 ?fb"
    using fips_pad_blocks(2) [OF ch] by (rule as_chunks64_blocks)
  ultimately show ?thesis
    by (simp add: sha256_hex_def fips_sha256_def ch Let_def sha256_compress_fips case_prod_beta)
qed


text \<open>
  The registry's copy of the digest helper agrees with the capability layer's on every
  input, so a registry fingerprint and an artifact hash of the same bytes coincide.
\<close>

theorem registry_digest_agrees: "registry_sha256_hex m = sha256_hex m"
  by (simp add: registry_sha256_hex_def sha256_hex_def registry_compress_eq Let_def case_prod_beta)

lemma hex_digit_lower: "n < 16 \<Longrightarrow> hex_digit n \<in> set ''0123456789abcdef''"
  unfolding hex_digit_def by (rule nth_mem) simp

lemma hex8_shape: "length (hex8 w) = 8 \<and> set (hex8 w) \<subseteq> set ''0123456789abcdef''"
  by (auto simp: hex8_def intro!: hex_digit_lower simp del: list.set)

lemma digest_hex_shape: "length (digest_hex st) = 64 \<and> set (digest_hex st) \<subseteq> set ''0123456789abcdef''"
proof -
  have "length (concat (map hex8 ws)) = 8 * length ws \<and> set (concat (map hex8 ws)) \<subseteq> set ''0123456789abcdef''" for ws
    using hex8_shape by (induction ws) auto
  moreover obtain a b c d e f g h where "st = (a, b, c, d, e, f, g, h)" by (metis prod.exhaust)
  then have "digest_hex st = concat (map hex8 [a, b, c, d, e, f, g, h])" by (simp add: digest_hex_def)
  moreover have "8 * length [a, b, c, d, e, f, g, h] = 64" by simp
  ultimately show ?thesis by metis
qed

text \<open>
  C40. A content hash is the tag \<open>sha256:\<close> followed by 64 lowercase hexadecimal digits.
\<close>

theorem content_hash_shape:
  "\<exists>h. content_hash m = ''sha256:'' @ h \<and> length h = 64 \<and> set h \<subseteq> set ''0123456789abcdef''"
  using digest_hex_shape by (simp add: content_hash_def sha256_hex_fips fips_sha256_def)

end
