(* ===== verification/Artifact_Store.thy ===== *)
theory Artifact_Store
  imports Capability_Lifecycle Content_Hash
begin

section \<open>The artifact store (\<open>capabilities/artifacts.rs\<close>)\<close>

text \<open>
  \<open>ArtifactCapability\<close> keeps bounded objects for a run. Every operation authorises its
  token with the lifecycle engine first, so the operations act on an engine state whose world
  contains the store (\<open>art_world\<close>). A published result is guarded: the guard is a resource
  of the execution token, and releasing or rolling it back retracts the object once. Object
  identifiers (\<open>Uuid::new_v4\<close>) and the size of an encoded value (\<open>serde_json\<close>) are
  arguments. A guard's atomic flag is found by the guard's serial number.
\<close>

record artifact_limits =
  max_object_bytes :: nat
  max_total_bytes :: nat
  max_objects :: nat

definition artifact_limits_default :: artifact_limits where
  "artifact_limits_default =
     \<lparr>max_object_bytes = 8 * 1024 * 1024, max_total_bytes = 64 * 1024 * 1024, max_objects = 1024\<rparr>"

record artifact_ref =
  ref_id :: string
  ref_len :: nat
  ref_hash :: string
  ref_metadata :: json

record artifact_record =
  owner_key_of :: string
  rec_generation :: u64
  rec_bytes :: string
  rec_hash :: string
  rec_metadata :: json

record artifact_store =
  art_owner :: capability_owner
  art_limits :: artifact_limits
  objects :: "(string \<times> artifact_record) list"
  total_bytes :: nat
  result_calls :: "string list"
  released :: "nat list"
  guards_made :: nat

record artifact_guard =
  guard_id :: string
  guard_call_key :: string
  guard_len :: nat
  guard_serial :: nat

record 'v art_world =
  art_store :: artifact_store
  art_rest :: 'v

definition usize_saturating_add :: "nat \<Rightarrow> nat \<Rightarrow> nat" where
  "usize_saturating_add a b = min (2 ^ 64 - 1) (a + b)"

definition artifact_new ::
  "capability_owner \<Rightarrow> artifact_limits \<Rightarrow> (capability_error, artifact_store) result" where
  "artifact_new ow lim =
     (if max_object_bytes lim = 0 \<or> max_total_bytes lim = 0 \<or> max_objects lim = 0
      then Inl (capability_error_new ''invalid_configuration'' ''artifact limits must be positive'')
      else Inr \<lparr>art_owner = ow, art_limits = lim, objects = [], total_bytes = 0, result_calls = [],
                released = [], guards_made = 0\<rparr>)"

subsection \<open>Storing and retracting\<close>

definition store_bytes ::
  "string \<Rightarrow> token_claims \<Rightarrow> string \<Rightarrow> json \<Rightarrow> (artifact_store, capability_error, artifact_ref) eff" where
  "store_bytes uuid claims bytes metadata st =
     (if max_object_bytes (art_limits st) < length bytes then
        (Inl (capability_error_new ''artifact_too_large'' ''artifact exceeds the per-object bound''), st)
      else if max_objects (art_limits st) \<le> length (objects st) \<or>
              max_total_bytes (art_limits st) < usize_saturating_add (total_bytes st) (length bytes) then
        (Inl (capability_error_new ''artifact_store_exhausted'' ''artifact store quota is exhausted''), st)
      else
        (let hash = content_hash bytes in
         (Inr \<lparr>ref_id = uuid, ref_len = length bytes, ref_hash = hash, ref_metadata = metadata\<rparr>,
          st\<lparr>objects := AList.update uuid
               \<lparr>owner_key_of = owner_key (tc_owner claims), rec_generation = tc_generation claims,
                rec_bytes = bytes, rec_hash = hash, rec_metadata = metadata\<rparr> (objects st),
             total_bytes := usize_saturating_add (total_bytes st) (length bytes)\<rparr>)))"

definition retract :: "artifact_guard \<Rightarrow> artifact_store \<Rightarrow> artifact_store" where
  "retract g st =
     (if guard_serial g \<in> set (released st) then st
      else
        (let st1 = st\<lparr>released := guard_serial g # released st\<rparr>;
             st2 = (case map_of (objects st1) (guard_id g) of
                      None \<Rightarrow> st1
                    | Some r \<Rightarrow> st1\<lparr>objects := AList.delete (guard_id g) (objects st1),
                                   total_bytes := total_bytes st1 - guard_len g\<rparr>) in
         st2\<lparr>result_calls := removeAll (guard_call_key g) (result_calls st2)\<rparr>))"

definition release_guard :: "artifact_guard \<Rightarrow> 'v art_world \<Rightarrow> 'v art_world" where
  "release_guard g w = w\<lparr>art_store := retract g (art_store w)\<rparr>"

subsection \<open>Result metadata\<close>

definition invalid_request :: "string \<Rightarrow> capability_error" where
  "invalid_request m = capability_error_new ''invalid_request'' m"

fun check_result_fields :: "string \<Rightarrow> json_map \<Rightarrow> (capability_error, unit) result" where
  "check_result_fields c [] = Inr ()"
| "check_result_fields c ((k, v) # m) =
     (if k = ''call_id'' then
        (case as_str v of
           None \<Rightarrow> Inl (invalid_request ''result metadata call_id must be a string'')
         | Some s \<Rightarrow>
             if 128 < length s then
               Inl (invalid_request ''result metadata call_id exceeds the allowlisted size'')
             else if s \<noteq> c then
               Inl (invalid_request ''result metadata call_id does not match the authorized token'')
             else check_result_fields c m)
      else Inl (invalid_request ''result metadata field is not allowlisted''))"

definition bind_result_metadata ::
  "(json \<Rightarrow> nat) \<Rightarrow> json \<Rightarrow> token_claims \<Rightarrow> (capability_error, json) result" where
  "bind_result_metadata enc_len metadata claims =
     (case as_object metadata of
        None \<Rightarrow> Inl (invalid_request ''result metadata must be an object'')
      | Some m \<Rightarrow>
          if 256 < enc_len metadata then
            Inl (invalid_request ''result metadata exceeds the allowlisted size'')
          else
            (case check_result_fields (tc_call_id claims) m of
               Inl e \<Rightarrow> Inl e
             | Inr u \<Rightarrow> Inr (jobject [(''call_id'', JString (tc_call_id claims)),
                 (''run'', JString (run (tc_owner claims))),
                 (''owner'', JString (owner_key (tc_owner claims)))])))"

definition result_call_key :: "token_claims \<Rightarrow> string" where
  "result_call_key claims = show_nat (unat (tc_generation claims)) @ '':'' @ tc_call_id claims"

subsection \<open>The capability\<close>

type_synonym 'v art_engine = "('v art_world, artifact_guard) lifecycle"
type_synonym ('v, 'a) art_op = "('v art_engine, capability_error, 'a) eff"

definition map_err :: "('e \<Rightarrow> 'f) \<Rightarrow> ('s, 'e, 'a) eff \<Rightarrow> ('s, 'f, 'a) eff" where
  "map_err f m s = (case m s of (Inl e, s') \<Rightarrow> (Inl (f e), s') | (Inr a, s') \<Rightarrow> (Inr a, s'))"

definition on_store :: "(artifact_store, capability_error, 'a) eff \<Rightarrow> ('v, 'a) art_op" where
  "on_store m s =
     (case m (art_store (world s)) of (r, st) \<Rightarrow> (r, s\<lparr>world := (world s)\<lparr>art_store := st\<rparr>\<rparr>))"

definition art_authorize ::
  "('v art_world, artifact_guard) lifecycle_deps \<Rightarrow> string \<Rightarrow> capability_risk \<Rightarrow> ('v, token_claims) art_op" where
  "art_authorize d token risk =
     with_state (\<lambda>s. map_err capability_error_from
       (authorize d (art_owner (art_store (world s))) token risk))"

definition put_with_risk ::
  "('v art_world, artifact_guard) lifecycle_deps \<Rightarrow> string \<Rightarrow> string \<Rightarrow> string \<Rightarrow> json \<Rightarrow> capability_risk \<Rightarrow>
   ('v, artifact_ref) art_op" where
  "put_with_risk d uuid token bytes metadata risk =
     and_then (art_authorize d token risk) (\<lambda>claims.
     on_store (store_bytes uuid claims bytes metadata))"

definition put ::
  "('v art_world, artifact_guard) lifecycle_deps \<Rightarrow> string \<Rightarrow> string \<Rightarrow> string \<Rightarrow> json \<Rightarrow> ('v, artifact_ref) art_op" where
  "put d uuid token bytes metadata = put_with_risk d uuid token bytes metadata Write"

definition claim_call :: "string \<Rightarrow> (artifact_store, capability_error, unit) eff" where
  "claim_call key st =
     (if key \<in> set (result_calls st) then
        (Inl (capability_error_new ''artifact_already_published''
                ''a result artifact was already published for this call''), st)
      else (Inr (), st\<lparr>result_calls := key # result_calls st\<rparr>))"

definition new_guard :: "artifact_ref \<Rightarrow> string \<Rightarrow> (artifact_store, capability_error, artifact_guard) eff" where
  "new_guard r key st =
     (Inr \<lparr>guard_id = ref_id r, guard_call_key = key, guard_len = ref_len r, guard_serial = guards_made st\<rparr>,
      st\<lparr>guards_made := Suc (guards_made st)\<rparr>)"

definition publish ::
  "('v art_world, artifact_guard) lifecycle_deps \<Rightarrow> string \<Rightarrow> string \<Rightarrow> artifact_ref \<Rightarrow> ('v, artifact_ref) art_op" where
  "publish d token key r =
     and_then (on_store (new_guard r key)) (\<lambda>g s.
       case register_resource d token g s of
         (Inr u, s') \<Rightarrow> (Inr r, s')
       | (Inl e, s') \<Rightarrow> (Inl (capability_error_from e), s'\<lparr>world := release_guard g (world s')\<rparr>))"

definition put_result ::
  "('v art_world, artifact_guard) lifecycle_deps \<Rightarrow> (json \<Rightarrow> nat) \<Rightarrow> string \<Rightarrow> string \<Rightarrow> string \<Rightarrow> json \<Rightarrow>
   ('v, artifact_ref) art_op" where
  "put_result d enc_len uuid token bytes metadata =
     and_then (art_authorize d token Read) (\<lambda>claims.
     and_then (\<lambda>s. (bind_result_metadata enc_len metadata claims, s)) (\<lambda>bound.
     and_then (on_store (claim_call (result_call_key claims))) (\<lambda>_ s.
       case on_store (store_bytes uuid claims bytes bound) s of
         (Inr r, s') \<Rightarrow> publish d token (result_call_key claims) r s'
       | (Inl e, s') \<Rightarrow>
           (Inl e, snd (on_store (\<lambda>st. (Inr (), st\<lparr>result_calls :=
              removeAll (result_call_key claims) (result_calls st)\<rparr>)) s')))))"

definition not_found :: capability_error where
  "not_found = capability_error_new ''artifact_not_found'' ''artifact is unknown''"

definition lookup ::
  "('v art_world, artifact_guard) lifecycle_deps \<Rightarrow> string \<Rightarrow> string \<Rightarrow> capability_risk \<Rightarrow> ('v, artifact_record) art_op" where
  "lookup d token i risk =
     and_then (art_authorize d token risk) (\<lambda>claims s.
       case map_of (objects (art_store (world s))) i of
         None \<Rightarrow> (Inl not_found, s)
       | Some r \<Rightarrow>
           if owner_key_of r \<noteq> owner_key (tc_owner claims) \<or> rec_generation r \<noteq> tc_generation claims
           then (Inl not_found, s)
           else (Inr r, s))"

definition get :: "('v art_world, artifact_guard) lifecycle_deps \<Rightarrow> string \<Rightarrow> string \<Rightarrow> ('v, string) art_op" where
  "get d token i = and_then (lookup d token i Read) (\<lambda>r. ret (rec_bytes r))"

definition reference ::
  "('v art_world, artifact_guard) lifecycle_deps \<Rightarrow> string \<Rightarrow> string \<Rightarrow> ('v, artifact_ref) art_op" where
  "reference d token i =
     and_then (lookup d token i Read) (\<lambda>r.
     ret \<lparr>ref_id = i, ref_len = length (rec_bytes r), ref_hash = rec_hash r, ref_metadata = rec_metadata r\<rparr>)"

definition stored :: "string \<Rightarrow> artifact_store \<Rightarrow> (string \<times> json) option" where
  "stored i st = map_option (\<lambda>r. (rec_bytes r, rec_metadata r)) (map_of (objects st) i)"

definition stored_len :: "artifact_store \<Rightarrow> nat" where
  "stored_len st = length (objects st)"

definition stored_ids :: "artifact_store \<Rightarrow> string list" where
  "stored_ids st = map fst (objects st)"

end
