(* ===== verification/Lifecycle_Safety.thy ===== *)
theory Lifecycle_Safety
  imports Capability_Lifecycle
begin

section \<open>Safety of the lifecycle engine\<close>

text \<open>
  What every method of the engine does to the token table, and what holds in every
  reachable state: one token per call, a bounded number of calls, frozen claims, and tokens
  that never reopen.
\<close>

subsection \<open>Effects of the methods\<close>

named_theorems lc_wp \<open>weakest preconditions of the engine's methods\<close>

lemma wp_on_world [intro!]:
  assumes "\<And>a w. m (world s) = (Inr a, w) \<Longrightarrow> Q a (s\<lparr>world := w\<rparr>)"
    and "\<And>e w. m (world s) = (Inl e, w) \<Longrightarrow> E e (s\<lparr>world := w\<rparr>)"
  shows "wp (on_world m) Q E s"
  using assms by (auto simp: wp_def on_world_def split: prod.splits sum.splits)

lemma wp_ask [intro!]:
  assumes "\<And>a w. m (world s) = (a, w) \<Longrightarrow> Q a (s\<lparr>world := w\<rparr>)"
  shows "wp (ask m) Q E s"
  using assms by (auto simp: wp_def ask_def split: prod.splits)

lemma wp_find_open [lc_wp]:
  "wp (find_open t) Q E s =
     (case map_of (token_states s) t of
        Some (Open claims _) \<Rightarrow> Q claims s
      | Some (Committed _) \<Rightarrow> E DuplicateClose s
      | Some (TokenInterrupted _) \<Rightarrow> E Interrupted s
      | None \<Rightarrow> E TokenUnknown s)"
  by (simp add: wp_def find_open_def split: option.split token_state.split)

lemma wp_take_open [lc_wp]:
  "wp (take_open t claims) Q E s =
     (case map_of (token_states s) t of
        Some (Open _ rs) \<Rightarrow>
          Q rs (s\<lparr>token_states := AList.update t (Committed (tc_call_id claims)) (token_states s)\<rparr>)
      | _ \<Rightarrow> E TokenUnknown s)"
  by (simp add: wp_def take_open_def split: option.split token_state.split)

lemma wp_lift_result [lc_wp]:
  "wp (lift_result r) Q E s = (case r of Inl e \<Rightarrow> E e s | Inr a \<Rightarrow> Q a s)"
  by (simp add: wp_def lift_result_def)

lemma wp_option_case [lc_wp]:
  "wp (case x of None \<Rightarrow> m | Some a \<Rightarrow> f a) Q E s =
   (case x of None \<Rightarrow> wp m Q E s | Some a \<Rightarrow> wp (f a) Q E s)"
  by (simp split: option.split)

definition world_only :: "('w, 'r) lifecycle \<Rightarrow> ('w, 'r) lifecycle \<Rightarrow> bool" where
  "world_only s s' \<longleftrightarrow> (\<exists>w. s' = s\<lparr>world := w\<rparr>)"

lemma world_onlyI [intro!]: "world_only s (s\<lparr>world := w\<rparr>)"
  by (auto simp: world_only_def)

lemma world_only_refl [intro!]: "world_only s s"
  by (cases s) (auto simp: world_only_def)

lemma validate_approval_facts_effect:
  "wp (validate_approval_facts d ow md) (\<lambda>_. world_only s) (\<lambda>_. world_only s) s"
  unfolding validate_approval_facts_def
  by (auto simp: wp_simps lc_wp)

lemma replay_completed_effect:
  "wp (replay_completed d ow md) (\<lambda>_. world_only s) (\<lambda>_. world_only s) s"
  unfolding replay_completed_def wp_simps
  by (rule wp_mono [OF validate_approval_facts_effect])
     (auto simp: wp_simps world_only_def)

lemma attest_approval_effect:
  "wp (attest_approval d ow md) (\<lambda>_. world_only s) (\<lambda>_. world_only s) s"
  unfolding attest_approval_def wp_simps
  by (rule wp_mono [OF validate_approval_facts_effect])
     (auto simp: wp_simps world_only_def)

text \<open>A successful \<open>prepare\<close> opens one token with frozen claims and counts the call.\<close>

definition same_config :: "('w, 'r) lifecycle \<Rightarrow> ('w, 'r) lifecycle \<Rightarrow> bool" where
  "same_config s s' \<longleftrightarrow>
     lc_owner s' = lc_owner s \<and> lc_registry_identity s' = lc_registry_identity s \<and>
     lc_workspace s' = lc_workspace s \<and> lc_limits s' = lc_limits s \<and>
     lc_deadline_ms s' = lc_deadline_ms s"

definition token_issued ::
  "prepare_metadata \<Rightarrow> capability_risk \<Rightarrow> string \<Rightarrow> ('w, 'r) lifecycle \<Rightarrow> ('w, 'r) lifecycle \<Rightarrow> bool" where
  "token_issued md cl t s s' \<longleftrightarrow>
     same_config s s' \<and> generation s' = generation s \<and> call_count s' = call_count s + 1 \<and>
     (\<exists>i. token_states s' =
        AList.update t (Open (claims_for s md cl (generation s) i) []) (token_states s))"

lemma claims_for_world [simp]: "claims_for (s\<lparr>world := w\<rparr>) = claims_for s"
  by (intro ext) (simp add: claims_for_def)

lemma token_issued_world [simp]: "token_issued md cl t (s\<lparr>world := w\<rparr>) s' = token_issued md cl t s s'"
  by (simp add: token_issued_def same_config_def)

lemma issue_token_effect:
  "wp (issue_token d md cl (generation s))
     (\<lambda>r s'. \<exists>t. r = ExecuteOutcome t (lc_deadline_ms s) \<and> token_issued md cl t s s')
     (\<lambda>_ _. False) s"
  unfolding issue_token_def
  by (auto simp: wp_simps lc_wp token_issued_def same_config_def split: option.split) blast+

lemma prepare_effect:
  "wp (prepare d ow md)
     (\<lambda>r s'. case r of
        ReplayOutcome v \<Rightarrow> world_only s s'
      | ExecuteOutcome t dl \<Rightarrow>
          dl = lc_deadline_ms s \<and> ow = lc_owner s \<and> run_id md = run ow \<and>
          registry_identity md = lc_registry_identity s \<and>
          \<not> has_call (call_id md) (token_states s) \<and> call_count s < max_tool_calls (lc_limits s) \<and>
          (\<exists>cl. token_issued md cl t s s'))
     (\<lambda>_. world_only s) s"
  unfolding prepare_def admit_call_def
  by (auto simp: wp_simps lc_wp split: option.split
           intro!: wp_mono [OF issue_token_effect [where s = "s\<lparr>world := w\<rparr>" for w, simplified]])
     blast+

text \<open>\<open>commit\<close> closes an open token or leaves the table as it is.\<close>

definition token_closed :: "string \<Rightarrow> ('w, 'r) lifecycle \<Rightarrow> ('w, 'r) lifecycle \<Rightarrow> bool" where
  "token_closed t s s' \<longleftrightarrow>
     same_config s s' \<and> generation s' = generation s \<and> call_count s' = call_count s \<and>
     (\<exists>claims rs. map_of (token_states s) t = Some (Open claims rs) \<and>
        token_states s' = AList.update t (Committed (tc_call_id claims)) (token_states s))"

lemma wp_publish_result [lc_wp]:
  "wp (publish_result d claims rs v) Q E s =
   wp (on_world (commit_result (dep_durable d) (tc_call_id claims) v))
      (\<lambda>c s'. Q \<lparr>envelope = committed_envelope (tc_call_id claims) c\<rparr> s')
      (\<lambda>e s'. E e (roll_back_all d rs s')) s"
  by (auto simp: wp_def publish_result_def split: prod.splits sum.splits)

lemma commit_inner_effect:
  "wp (commit_inner d ow t v) (\<lambda>_. token_closed t s)
     (\<lambda>_ s'. world_only s s' \<or> token_closed t s s') s"
  unfolding commit_inner_def
  by (auto simp: wp_simps lc_wp token_closed_def same_config_def roll_back_all_def
           split: option.split token_state.split sum.split)

lemma commit_effect:
  "wp (commit d ow t v) (\<lambda>_. token_closed t s)
     (\<lambda>_ s'. world_only s s' \<or> token_closed t s s') s"
  using commit_inner_effect [of d ow t v s]
  by (auto simp: wp_def commit_def rollback_unpublished_def roll_back_all_def world_only_def
             token_closed_def same_config_def
           split: prod.splits sum.splits option.splits token_state.splits)

lemma authorize_effect:
  "wp (authorize d ow t rq) (\<lambda>_. world_only s) (\<lambda>_. world_only s) s"
  unfolding authorize_def
  by (auto simp: wp_simps lc_wp split: option.split token_state.split)

subsection \<open>Recovery on the token table\<close>

fun interrupt_entry :: "'r token_state \<Rightarrow> 'r token_state" where
  "interrupt_entry (Open claims _) = TokenInterrupted (tc_call_id claims)"
| "interrupt_entry (Committed c) = Committed c"
| "interrupt_entry (TokenInterrupted c) = TokenInterrupted c"

fun owned_resources :: "'r token_state \<Rightarrow> 'r list" where
  "owned_resources (Open _ rs) = rs"
| "owned_resources (Committed _) = []"
| "owned_resources (TokenInterrupted _) = []"

lemma update_middle:
  "t \<notin> set (map fst pre) \<Longrightarrow> AList.update t v (pre @ (t, st) # sts) = pre @ (t, v) # sts"
  by (induction pre) auto

lemma map_of_middle:
  "t \<notin> set (map fst pre) \<Longrightarrow> map_of (pre @ (t, st) # sts) t = Some st"
  by (induction pre) auto

lemma interrupt_each_prefix:
  assumes "distinct (map fst (pre @ sts))"
  shows "interrupt_each (open_calls sts) (pre @ sts) rs =
         (pre @ map (apsnd interrupt_entry) sts, rs @ concat (map (\<lambda>a. owned_resources (snd a)) sts))"
  using assms
proof (induction sts arbitrary: pre rs)
  case (Cons p sts)
  obtain t st where p: "p = (t, st)" by fastforce
  have t: "t \<notin> set (map fst pre)" using Cons.prems p by auto
  have IH: "interrupt_each (open_calls sts) ((pre @ [(t, st')]) @ sts) rs' =
     ((pre @ [(t, st')]) @ map (apsnd interrupt_entry) sts, rs' @ concat (map (\<lambda>a. owned_resources (snd a)) sts))"
    for st' rs' using Cons.prems p by (intro Cons.IH) auto
  show ?case
    using IH [of _ rs] IH [of _ "rs @ owned_resources st"] t
    by (cases st) (simp_all add: p update_middle map_of_middle del: map_of_append)
qed simp

lemma interrupt_each_open:
  assumes "distinct (map fst sts)"
  shows "interrupt_each (open_calls sts) sts [] =
         (map (apsnd interrupt_entry) sts, concat (map (\<lambda>a. owned_resources (snd a)) sts))"
  using interrupt_each_prefix [of "[]" sts "[]"] assms by simp

lemma interrupt_calls_effect:
  "wp (interrupt_calls d cs acc) (\<lambda>r s'. r = acc @ cs \<and> world_only s s') (\<lambda>_. world_only s) s"
proof (induction cs arbitrary: acc s)
  case (Cons c cs)
  have "wp (interrupt_calls d cs (acc @ [c])) (\<lambda>r s'. r = acc @ c # cs \<and> world_only s s')
     (\<lambda>_. world_only s) (s\<lparr>world := w\<rparr>)" for w
    using Cons.IH [of "acc @ [c]" "s\<lparr>world := w\<rparr>"] by (rule wp_mono) (auto simp: world_only_def)
  then show ?case by (auto simp: wp_simps)
qed (auto simp: wp_simps)

definition tokens_interrupted :: "('w, 'r) lifecycle \<Rightarrow> ('w, 'r) lifecycle \<Rightarrow> bool" where
  "tokens_interrupted s s' \<longleftrightarrow>
     same_config s s' \<and> call_count s' = call_count s \<and>
     token_states s' = map (apsnd interrupt_entry) (token_states s)"

lemma recover_effect:
  assumes "distinct (map fst (token_states s))"
  shows "wp (recover_open_tokens d)
     (\<lambda>r s'. r = map snd (open_calls (token_states s)) \<and> tokens_interrupted s s' \<and>
             generation s' = generation s + 1)
     (\<lambda>e s'. tokens_interrupted s s' \<and> generation s' = generation s) s"
proof -
  let ?rs = "concat (map (\<lambda>a. owned_resources (snd a)) (token_states s))"
  let ?s1 = "release_resources d ?rs (s\<lparr>token_states := map (apsnd interrupt_entry) (token_states s)\<rparr>)"
  have "wp (and_then (interrupt_calls d (map snd (open_calls (token_states s))) []) (\<lambda>recovered.
      and_then (modify (\<lambda>s. s\<lparr>generation := generation s + 1\<rparr>)) (\<lambda>_. ret recovered)))
     (\<lambda>r s'. r = map snd (open_calls (token_states s)) \<and> tokens_interrupted s s' \<and>
             generation s' = generation s + 1)
     (\<lambda>e s'. tokens_interrupted s s' \<and> generation s' = generation s) ?s1"
    unfolding wp_simps
    by (rule wp_mono [OF interrupt_calls_effect])
       (auto simp: wp_simps world_only_def tokens_interrupted_def same_config_def release_resources_def)
  then show ?thesis
    using interrupt_each_open [OF assms]
    by (simp add: wp_def recover_open_tokens_def)
qed

subsection \<open>The invariant\<close>

text \<open>
  Tokens evolve forward only: a token keeps its call, and a closed token stays as it is.
\<close>

definition table_evolves :: "(string \<times> 'r token_state) list \<Rightarrow> (string \<times> 'r token_state) list \<Rightarrow> bool" where
  "table_evolves T T' \<longleftrightarrow>
     (\<forall>t st. map_of T t = Some st \<longrightarrow>
        (\<exists>st'. map_of T' t = Some st' \<and> token_call_id st' = token_call_id st \<and> (is_Open st \<or> st' = st)))"

definition frozen_claims :: "('w, 'r) lifecycle \<Rightarrow> token_claims \<Rightarrow> bool" where
  "frozen_claims s c \<longleftrightarrow>
     tc_owner c = lc_owner s \<and> tc_registry_identity c = lc_registry_identity s \<and>
     tc_output_budget c = max_output_bytes (lc_limits s) \<and> tc_deadline_ms c = lc_deadline_ms s \<and>
     tc_workspace c = lc_workspace s \<and> tc_generation c = generation s"

definition lc_inv :: "('w, 'r) lifecycle \<Rightarrow> bool" where
  "lc_inv s \<longleftrightarrow>
     distinct (map fst (token_states s)) \<and>
     distinct (map (\<lambda>a. token_call_id (snd a)) (token_states s)) \<and>
     unat (call_count s) = length (token_states s) \<and>
     call_count s \<le> max_tool_calls (lc_limits s) \<and>
     (\<forall>(t, st) \<in> set (token_states s). is_Open st \<longrightarrow> frozen_claims s (open_claims st))"

lemma table_evolves_refl [intro!]: "table_evolves T T"
  by (simp add: table_evolves_def)

lemma table_evolves_trans: "table_evolves T T' \<Longrightarrow> table_evolves T' T'' \<Longrightarrow> table_evolves T T''"
  unfolding table_evolves_def by metis

lemma table_evolves_fresh: "map_of T t = None \<Longrightarrow> table_evolves T (AList.update t st T)"
  by (auto simp: table_evolves_def update_conv')

lemma table_evolves_update:
  "map_of T t = Some (Open c rs) \<Longrightarrow> token_call_id st = tc_call_id c \<Longrightarrow> table_evolves T (AList.update t st T)"
  by (auto simp: table_evolves_def update_conv')

lemma token_call_id_interrupt [simp]: "token_call_id (interrupt_entry st) = token_call_id st"
  by (cases st) simp_all

lemma is_Open_interrupt [simp]: "\<not> is_Open (interrupt_entry st)"
  by (cases st) simp_all

lemma table_evolves_interrupt: "table_evolves T (map (apsnd interrupt_entry) T)"
proof -
  have "map_of (map (apsnd interrupt_entry) T) t = map_option interrupt_entry (map_of T t)" for t
    by (induction T) auto
  moreover have "is_Open st \<or> interrupt_entry st = st" for st :: "'a token_state"
    by (cases st) auto
  ultimately show ?thesis by (simp add: table_evolves_def)
qed

lemma update_existing:
  assumes "map_of T t = Some st" "token_call_id st' = token_call_id st"
  shows "map fst (AList.update t st' T) = map fst T"
    and "map (\<lambda>a. token_call_id (snd a)) (AList.update t st' T) = map (\<lambda>a. token_call_id (snd a)) T"
    and "length (AList.update t st' T) = length T"
  using assms by (induction T) (auto split: if_splits)

lemma set_update: "set (AList.update t st' T) \<subseteq> insert (t, st') (set T)"
  by (induction T) (auto split: if_splits)

lemma has_call_iff: "has_call c T \<longleftrightarrow> c \<in> set (map (\<lambda>a. token_call_id (snd a)) T)"
  by (force simp: has_call_def list_ex_iff image_iff)

lemma lc_inv_world [simp]: "lc_inv (s\<lparr>world := w\<rparr>) = lc_inv s"
  by (simp add: lc_inv_def frozen_claims_def)

lemma frozen_claims_cong:
  "same_config s s' \<Longrightarrow> generation s' = generation s \<Longrightarrow> frozen_claims s' = frozen_claims s"
  by (auto simp: same_config_def frozen_claims_def fun_eq_iff)

lemma token_issued_inv:
  assumes inv: "lc_inv s" and iss: "token_issued md cl t s s'"
    and call: "\<not> has_call (call_id md) (token_states s)" "registry_identity md = lc_registry_identity s"
    and room: "call_count s < max_tool_calls (lc_limits s)"
    and fresh: "map_of (token_states s) t = None"
  shows "lc_inv s' \<and> table_evolves (token_states s) (token_states s')"
proof -
  obtain i where st: "token_states s' = token_states s @ [(t, Open (claims_for s md cl (generation s) i) [])]"
    using iss fresh by (auto simp: token_issued_def update_fresh)
  have fz: "frozen_claims s' = frozen_claims s" and cfg: "lc_limits s' = lc_limits s"
    and cc: "call_count s' = call_count s + 1"
    using iss frozen_claims_cong [of s s'] by (simp_all add: token_issued_def same_config_def)
  have "unat (call_count s + 1) = unat (call_count s) + 1"
    using room by (rule unat_inc_less)
  moreover have "call_count s + 1 \<le> max_tool_calls (lc_limits s)"
    using room by (rule unat_inc_less)
  moreover have "t \<notin> fst ` set (token_states s)" using fresh by (simp add: map_of_eq_None_iff)
  ultimately have "lc_inv s'"
    using inv call fz cfg cc
    by (auto simp: lc_inv_def st has_call_iff frozen_claims_def claims_for_def)
  moreover have "table_evolves (token_states s) (token_states s')"
    using iss fresh by (auto simp: token_issued_def table_evolves_fresh)
  ultimately show ?thesis by simp
qed


lemma token_update_inv:
  assumes inv: "lc_inv s" and cfg: "same_config s s'" "generation s' = generation s" "call_count s' = call_count s"
    and old: "map_of (token_states s) t = Some st" and new: "token_call_id st' = token_call_id st"
    and opn: "is_Open st' \<longrightarrow> is_Open st \<and> open_claims st' = open_claims st"
    and tab: "token_states s' = AList.update t st' (token_states s)"
  shows "lc_inv s'"
proof -
  have "(t, st) \<in> set (token_states s)" using old by (rule map_of_SomeD)
  then have "\<forall>(t, st) \<in> set (token_states s'). is_Open st \<longrightarrow> frozen_claims s (open_claims st)"
    using inv opn set_update [of t st' "token_states s"] unfolding tab lc_inv_def by fastforce
  then show ?thesis
    using inv cfg update_existing [OF old new] frozen_claims_cong [OF cfg(1,2)]
    by (simp add: lc_inv_def tab same_config_def)
qed

lemma token_closed_inv:
  assumes "lc_inv s" "token_closed t s s'"
  shows "lc_inv s' \<and> table_evolves (token_states s) (token_states s')"
proof -
  from assms(2) obtain c rs where t: "map_of (token_states s) t = Some (Open c rs)"
    and tab: "token_states s' = AList.update t (Committed (tc_call_id c)) (token_states s)"
    and cfg: "same_config s s'" "generation s' = generation s" "call_count s' = call_count s"
    by (auto simp: token_closed_def)
  show ?thesis
    using token_update_inv [OF assms(1) cfg t _ _ tab] table_evolves_update [OF t] tab by simp
qed

lemma tokens_interrupted_inv:
  assumes "lc_inv s" "tokens_interrupted s s'"
  shows "lc_inv s' \<and> table_evolves (token_states s) (token_states s')"
  using assms table_evolves_interrupt [of "token_states s"]
  by (auto simp: lc_inv_def tokens_interrupted_def same_config_def comp_def)

lemma register_resource_inv:
  assumes inv: "lc_inv s" and reg: "register_resource d t x s = (r, s')"
  shows "lc_inv s' \<and> table_evolves (token_states s) (token_states s')"
proof (cases "map_of (token_states s) t")
  case (Some st)
  show ?thesis
  proof (cases st)
    case (Open c rs)
    then have s': "s' = s\<lparr>token_states := AList.update t (Open c (rs @ [x])) (token_states s)\<rparr>"
      using reg Some by (simp add: register_resource_def)
    show ?thesis
      using token_update_inv [OF inv _ _ _ Some, of s' "Open c (rs @ [x])"]
        table_evolves_update [of "token_states s" t c rs "Open c (rs @ [x])"] Some Open
      by (simp add: s' same_config_def)
  qed (use inv reg Some in \<open>auto simp: register_resource_def\<close>)
qed (use inv reg in \<open>auto simp: register_resource_def\<close>)

lemma interrupt_token_inv:
  assumes inv: "lc_inv s" and int: "interrupt_token d t s = (r, s')"
  shows "lc_inv s' \<and> table_evolves (token_states s) (token_states s')"
proof (cases "map_of (token_states s) t")
  case (Some st)
  show ?thesis
  proof (cases st)
    case (Open c rs)
    then obtain w where s': "s' = s\<lparr>token_states :=
        AList.update t (TokenInterrupted (tc_call_id c)) (token_states s), world := w\<rparr>"
      using int Some
      by (auto simp: interrupt_token_def on_world_def release_resources_def split: prod.splits)
    show ?thesis
      using token_update_inv [OF inv _ _ _ Some, of s' "TokenInterrupted (tc_call_id c)"]
        table_evolves_update [of "token_states s" t c rs "TokenInterrupted (tc_call_id c)"] Some Open
      by (simp add: s' same_config_def)
  qed (use inv int Some in \<open>auto simp: interrupt_token_def\<close>)
qed (use inv int in \<open>auto simp: interrupt_token_def\<close>)


subsection \<open>Reachable states\<close>

lemma same_config_refl [intro!]: "same_config s s"
  by (simp add: same_config_def)

lemma same_config_trans: "same_config s s' \<Longrightarrow> same_config s' s'' \<Longrightarrow> same_config s s''"
  by (simp add: same_config_def)

lemma world_only_inv:
  "world_only s s' \<Longrightarrow> lc_inv s \<Longrightarrow>
   lc_inv s' \<and> table_evolves (token_states s) (token_states s') \<and> same_config s s'"
  by (auto simp: world_only_def same_config_def)

lemma interrupt_token_config: "interrupt_token d t s = (r, s') \<Longrightarrow> same_config s s'"
  by (auto simp: interrupt_token_def on_world_def release_resources_def same_config_def
           split: option.splits token_state.splits prod.splits)

lemma register_resource_config: "register_resource d t x s = (r, s') \<Longrightarrow> same_config s s'"
  by (auto simp: register_resource_def same_config_def split: option.splits token_state.splits)

lemma prepare_step_inv:
  assumes "prepare d ow md s = (r, s')" "lc_inv s"
    and "\<And>t dl. r = Inr (ExecuteOutcome t dl) \<Longrightarrow> map_of (token_states s) t = None"
  shows "lc_inv s' \<and> table_evolves (token_states s) (token_states s') \<and> same_config s s'"
proof (cases r)
  case (Inl e)
  then show ?thesis
    using wp_InlD [OF assms(1) [unfolded Inl] prepare_effect] assms(2) by (simp add: world_only_inv)
next
  case (Inr out)
  note eff = wp_InrD [OF assms(1) [unfolded Inr] prepare_effect]
  show ?thesis
  proof (cases out)
    case (ExecuteOutcome t dl)
    with eff obtain cl where e: "\<not> has_call (call_id md) (token_states s)" "token_issued md cl t s s'"
      "registry_identity md = lc_registry_identity s" "call_count s < max_tool_calls (lc_limits s)"
      by auto
    moreover have "map_of (token_states s) t = None" using assms(3) Inr ExecuteOutcome by simp
    ultimately show ?thesis
      using token_issued_inv [OF assms(2) e(2,1,3,4)] by (simp add: token_issued_def)
  next
    case (ReplayOutcome v)
    then show ?thesis using eff assms(2) by (simp add: world_only_inv)
  qed
qed

lemma commit_step_inv:
  assumes "commit d ow t v s = (r, s')" "lc_inv s"
  shows "lc_inv s' \<and> table_evolves (token_states s) (token_states s') \<and> same_config s s'"
proof -
  have "world_only s s' \<or> token_closed t s s'"
    using assms(1) wp_InlD [OF _ commit_effect] wp_InrD [OF _ commit_effect] by (cases r) blast+
  then show ?thesis
    using assms(2) token_closed_inv [of s t s'] world_only_inv [of s s'] by (auto simp: token_closed_def)
qed

lemma recover_step_inv:
  assumes "recover_open_tokens d s = (r, s')" "lc_inv s"
  shows "lc_inv s' \<and> table_evolves (token_states s) (token_states s') \<and> same_config s s'"
proof -
  have "distinct (map fst (token_states s))" using assms(2) by (simp add: lc_inv_def)
  from recover_effect [OF this, of d] have "tokens_interrupted s s'"
    using assms(1) by (cases r) (simp_all add: wp_def)
  then show ?thesis
    using tokens_interrupted_inv [OF assms(2)] by (simp add: tokens_interrupted_def)
qed

lemma lc_step_inv:
  assumes "lc_step d s s'" "lc_inv s"
  shows "lc_inv s' \<and> table_evolves (token_states s) (token_states s') \<and> same_config s s'"
  using assms
proof cases
  case (prepared ow md r)
  then show ?thesis using prepare_step_inv assms(2) by blast
next
  case (attested ow md r)
  then show ?thesis
    using wp_sndD [OF attest_approval_effect [of d ow md s]] assms(2) by (simp add: world_only_inv)
next
  case (replay_checked ow md r)
  then show ?thesis
    using wp_sndD [OF replay_completed_effect [of d ow md s]] assms(2) by (simp add: world_only_inv)
next
  case (committed ow t v r)
  then show ?thesis using commit_step_inv assms(2) by blast
next
  case (authorized ow t rq r)
  then show ?thesis
    using wp_sndD [OF authorize_effect [of d ow t rq s]] assms(2) by (simp add: world_only_inv)
next
  case (registered t x r)
  show ?thesis
    using register_resource_inv [OF assms(2) registered] register_resource_config [OF registered] by simp
next
  case (recovered r)
  then show ?thesis using recover_step_inv assms(2) by blast
next
  case (dropped l)
  then show ?thesis
    using interrupt_token_inv [OF assms(2)] interrupt_token_config assms(2)
    by (cases "interrupt_token d (lease_token l) s") (auto simp: drop_lease_def)
next
  case (environment w)
  then show ?thesis using assms(2) by (auto simp: same_config_def)
qed

lemma lc_steps_inv:
  assumes "(lc_step d)\<^sup>*\<^sup>* s s'" "lc_inv s"
  shows "lc_inv s' \<and> table_evolves (token_states s) (token_states s') \<and> same_config s s'"
  using assms
proof (induction rule: rtranclp_induct)
  case (step s' s'')
  then show ?case
    using lc_step_inv [of d s' s''] table_evolves_trans same_config_trans by blast
qed auto

lemma build_inv: "build rel rb jsz w b = Inr (d, s) \<Longrightarrow> lc_inv s"
  by (auto simp: build_def required_def lc_inv_def split: option.splits if_splits)

end
