(* ===== verification/Lifecycle_Properties.thy ===== *)
theory Lifecycle_Properties
  imports Lifecycle_Safety
begin

section \<open>What the lifecycle engine guarantees\<close>

text \<open>
  The properties of the engine, over the effect lemmas and the invariant of
  \<open>Lifecycle_Safety\<close>: at most one execution per call, tokens that close once, exact
  authorisation, durable records before tokens, recovery that fences every open token.
  \<open>mem_deps\<close> is an in-memory world with the guardian gate on which the statements are
  exercised.
\<close>

definition lc_reachable :: "('w, 'r) lifecycle_deps \<Rightarrow> ('w, 'r) lifecycle \<Rightarrow> bool" where
  "lc_reachable d s \<longleftrightarrow>
     (\<exists>rel rb jsz w b s0. build rel rb jsz w b = Inr (d, s0) \<and> (lc_step d)\<^sup>*\<^sup>* s0 s)"

lemma lc_reachable_inv:
  assumes "lc_reachable d s"
  shows "lc_inv s"
proof -
  from assms obtain rel rb jsz w b s0 where b: "build rel rb jsz w b = Inr (d, s0)"
    and r: "(lc_step d)\<^sup>*\<^sup>* s0 s"
    unfolding lc_reachable_def by (elim exE conjE)
  from lc_steps_inv [OF r build_inv [OF b]] show ?thesis by simp
qed

lemma lc_reachable_steps: "lc_reachable d s \<Longrightarrow> (lc_step d)\<^sup>*\<^sup>* s s' \<Longrightarrow> lc_reachable d s'"
  unfolding lc_reachable_def by (meson rtranclp_trans)

subsection \<open>A world in memory\<close>

record mem_world =
  mw_clock :: u64
  mw_issued :: nat
  mw_started :: "durable_started list"
  mw_results :: "(string \<times> json) list"
  mw_interrupted :: "string list"
  mw_gate :: guardian

definition mem_tick :: "mem_world \<Rightarrow> u64 \<times> mem_world" where
  "mem_tick w = (mw_clock w, w\<lparr>mw_clock := mw_clock w + 1\<rparr>)"

definition mem_issue :: "mem_world \<Rightarrow> string \<times> mem_world" where
  "mem_issue w = (replicate (Suc (mw_issued w)) (CHR ''t''), w\<lparr>mw_issued := Suc (mw_issued w)\<rparr>)"

definition mem_durable :: "mem_world durable_ops" where
  "mem_durable =
     \<lparr>assert_active_run = (\<lambda>r. ret ()),
      prepare_parent = (\<lambda>r c t. ret ()),
      replay_result = (\<lambda>r c t w. (Inr (map_of (mw_results w) c), w)),
      commit_started = (\<lambda>rec w. (Inr (), w\<lparr>mw_started := mw_started w @ [rec]\<rparr>)),
      commit_result = (\<lambda>c v w. (Inr v, w\<lparr>mw_results := (c, v) # mw_results w\<rparr>)),
      durable_interrupt = (\<lambda>c w. (Inr (), w\<lparr>mw_interrupted := mw_interrupted w @ [c]\<rparr>))\<rparr>"

definition mem_approval :: "mem_world approval_ops" where
  "mem_approval =
     \<lparr>ap_attest = (\<lambda>ow md gen now dl w.
        case guardian_attest (mw_clock w) (mw_clock w) ow md gen now dl (mw_gate w) of
          (r, g) \<Rightarrow> (r, w\<lparr>mw_gate := g\<rparr>)),
      ap_authorize_at = (\<lambda>md gen now w.
        case guardian_authorize_at (mw_clock w) md gen now (mw_gate w) of
          (r, g) \<Rightarrow> (r, w\<lparr>mw_gate := g\<rparr>))\<rparr>"

definition mem_builder :: "(mem_world, nat) lifecycle_builder" where
  "mem_builder = lifecycle_builder_default\<lparr>lb_owner := Some example_owner,
     lb_registry_identity := Some ''registry'', lb_workspace := Some ''/work'',
     lb_limits := Some \<lparr>max_tool_calls = 2, max_output_bytes = 100, max_summary_bytes = 64\<rparr>,
     lb_deadline_ms := Some 1000,
     lb_clock := Some \<lparr>clk_now_ms = mem_tick, clk_now = (\<lambda>w. (unat (mw_clock w), w))\<rparr>,
     lb_tokens := Some mem_issue, lb_durable := Some mem_durable, lb_approval := Some mem_approval\<rparr>"

definition mem_start :: mem_world where
  "mem_start = \<lparr>mw_clock = 1, mw_issued = 0, mw_started = [], mw_results = [], mw_interrupted = [],
     mw_gate = guardian_new 4\<rparr>"

definition mem_deps :: "(mem_world, nat) lifecycle_deps" where
  "mem_deps = \<lparr>dep_clock = \<lparr>clk_now_ms = mem_tick, clk_now = (\<lambda>w. (unat (mw_clock w), w))\<rparr>,
     dep_tokens = mem_issue, dep_durable = mem_durable, dep_approval = mem_approval,
     dep_cancellation = never_cancelled, dep_release = (\<lambda>r w. w), dep_rollback = (\<lambda>r w. w),
     dep_json_size = (\<lambda>v. 10)\<rparr>"

definition mem_state :: "mem_world \<Rightarrow> (mem_world, nat) lifecycle" where
  "mem_state w = \<lparr>lc_owner = example_owner, lc_registry_identity = ''registry'', lc_workspace = ''/work'',
     lc_limits = \<lparr>max_tool_calls = 2, max_output_bytes = 100, max_summary_bytes = 64\<rparr>,
     lc_deadline_ms = 1000, generation = 1, call_count = 0, token_states = [], world = w\<rparr>"

lemma mem_build:
  "build (\<lambda>r w. w) (\<lambda>r w. w) (\<lambda>v. 10) w mem_builder = Inr (mem_deps, mem_state w)"
  by (simp add: build_def required_def mem_builder_def lifecycle_builder_default_def mem_deps_def
        mem_state_def)

lemma mem_state_reachable: "lc_reachable mem_deps (mem_state w)"
  unfolding lc_reachable_def using mem_build by blast

definition read_call :: prepare_metadata where
  "read_call = example_metadata\<lparr>risk_class := Read\<rparr>"

definition ok_result :: json where
  "ok_result = jobject [(''ok'', JBool True), (''content'', JString ''done'')]"

lemmas mem_simps =
  mem_tick_def mem_issue_def mem_durable_def mem_approval_def mem_deps_def mem_state_def mem_start_def
  read_call_def example_metadata_def example_owner_def never_cancelled_def guardian_new_def
  guardian_authorize_at_def guardian_attest_def

lemmas run_simps =
  and_then_def ensure_def ret_def fail_def reads_def modify_def with_state_def on_world_def ask_def
  lift_result_def has_call_def started_record_def claims_for_def instant_checked_add_def sat_sub64_def
  find_open_def take_open_def publish_result_def

definition mem_opened :: "(mem_world, nat) lifecycle" where
  "mem_opened = snd (admit_call mem_deps read_call (mem_state mem_start))"

lemma mem_prepare:
  "prepare mem_deps example_owner read_call (mem_state mem_start) =
   (Inr (ExecuteOutcome ''t'' 1000), mem_opened)"
proof -
  have "prepare mem_deps example_owner read_call (mem_state mem_start) =
        admit_call mem_deps read_call (mem_state mem_start)"
    by (simp add: prepare_def and_then_def ensure_def with_state_def on_world_def ret_def mem_simps)
  moreover have "fst (admit_call mem_deps read_call (mem_state mem_start)) = Inr (ExecuteOutcome ''t'' 1000)"
    by (simp add: admit_call_def issue_token_def run_simps mem_simps)
  ultimately show ?thesis unfolding mem_opened_def by (simp only: prod_eq_iff fst_conv snd_conv)
qed

lemma mem_prepare_step: "lc_step mem_deps (mem_state mem_start) mem_opened"
  by (rule lc_step.prepared [OF mem_prepare]) (simp add: mem_state_def)

lemma mem_opened_reachable: "lc_reachable mem_deps mem_opened"
  using mem_state_reachable mem_prepare_step lc_reachable_steps by blast

definition mem_closed :: "(mem_world, nat) lifecycle" where
  "mem_closed = snd (commit mem_deps example_owner ''t'' ok_result mem_opened)"

lemma mem_opened_table:
  "token_states mem_opened = [(''t'', Open (claims_for (mem_state mem_start) read_call Read 1 997000004) [])]"
  by (simp add: mem_opened_def admit_call_def issue_token_def run_simps mem_simps)

lemma mem_commit:
  "commit mem_deps example_owner ''t'' ok_result mem_opened =
   (Inr \<lparr>envelope = committed_envelope ''call-1'' ok_result\<rparr>, mem_closed)"
proof -
  have "fst (commit mem_deps example_owner ''t'' ok_result mem_opened) =
        Inr \<lparr>envelope = committed_envelope ''call-1'' ok_result\<rparr>"
    by (simp add: commit_def commit_inner_def mem_opened_def admit_call_def issue_token_def run_simps
          mem_simps ok_result_def validate_canonical_result_def jobject_def)
  then show ?thesis unfolding mem_closed_def by (simp only: prod_eq_iff fst_conv snd_conv)
qed

subsection \<open>Invariant of the token table\<close>



subsection \<open>At most one execution per call\<close>

lemma issued_has_call:
  assumes "token_issued md cl t s s'"
  shows "\<exists>i. map_of (token_states s') t = Some (Open (claims_for s md cl (generation s) i) [])"
  using assms by (auto simp: token_issued_def update_conv')

lemma has_call_evolves:
  assumes "table_evolves T T'" "map_of T t = Some st" "token_call_id st = c"
  shows "has_call c T'"
proof -
  obtain st' where "map_of T' t = Some st'" "token_call_id st' = c"
    using assms unfolding table_evolves_def by blast
  then show ?thesis by (force simp: has_call_iff image_iff dest: map_of_SomeD)
qed

text \<open>
  C3. A call runs at most once. After \<open>prepare\<close> handed out a token for a call, no later
  \<open>prepare\<close> of that call, by any owner and after any sequence of engine steps (commits,
  failed commits, interrupts and recoveries included), hands out another token.
\<close>

theorem at_most_one_execution:
  assumes "lc_reachable d s"
    and "prepare d ow md s = (Inr (ExecuteOutcome t dl), s1)" "map_of (token_states s) t = None"
    and "(lc_step d)\<^sup>*\<^sup>* s1 s2" "call_id md' = call_id md"
  shows "fst (prepare d ow' md' s2) \<noteq> Inr (ExecuteOutcome t' dl')"
proof
  assume "fst (prepare d ow' md' s2) = Inr (ExecuteOutcome t' dl')"
  then have "prepare d ow' md' s2 = (Inr (ExecuteOutcome t' dl'), snd (prepare d ow' md' s2))"
    by (simp add: prod_eq_iff)
  from wp_InrD [OF this prepare_effect] have free: "\<not> has_call (call_id md) (token_states s2)"
    using assms(5) by simp
  from wp_InrD [OF assms(2) prepare_effect] obtain cl where "token_issued md cl t s s1" by auto
  then obtain i where tok: "map_of (token_states s1) t = Some (Open (claims_for s md cl (generation s) i) [])"
    using issued_has_call by blast
  have "lc_step d s s1"
    using assms(2,3) by (auto intro!: lc_step.prepared)
  then have inv: "lc_inv s1" using lc_step_inv lc_reachable_inv [OF assms(1)] by blast
  from lc_steps_inv [OF assms(4) inv] have "table_evolves (token_states s1) (token_states s2)" by simp
  from has_call_evolves [OF this tok] free show False by (simp add: claims_for_def)
qed

theorem at_most_one_execution_witness:
  "call_id read_call \<noteq> [] \<and>
   fst (prepare mem_deps example_owner read_call mem_closed) \<noteq> Inr (ExecuteOutcome ''tt'' 1000)"
proof -
  have "(lc_step mem_deps)\<^sup>*\<^sup>* mem_opened mem_closed"
    using lc_step.committed [OF mem_commit] by blast
  from at_most_one_execution [OF mem_state_reachable mem_prepare _ this refl, of example_owner "''tt''" 1000]
  show ?thesis by (simp add: mem_state_def read_call_def example_metadata_def)
qed


subsection \<open>Closing and authorising tokens\<close>

lemma commit_Inr_closed:
  assumes "commit d ow t v s = (Inr out, s1)"
  shows "\<exists>c. map_of (token_states s1) t = Some (Committed c)" and "ow = lc_owner s"
proof -
  show "\<exists>c. map_of (token_states s1) t = Some (Committed c)"
    using wp_InrD [OF assms commit_effect] by (auto simp: token_closed_def update_conv')
  have "commit_inner d ow t v s = (Inr out, s1)"
    using assms by (simp add: commit_def split: prod.splits sum.splits)
  then show "ow = lc_owner s"
    by (auto simp: commit_inner_def with_state_eq eff_Inr)
qed

lemma authorize_Inr:
  "fst (authorize d ow t rq s) = Inr claims \<longleftrightarrow>
   ow = lc_owner s \<and> \<not> fst (dep_cancellation d (world s)) \<and>
   (\<exists>rs. map_of (token_states s) t = Some (Open claims rs)) \<and> tc_owner claims = ow \<and>
   fst (clk_now_ms (dep_clock d) (snd (dep_cancellation d (world s)))) < tc_deadline_ms claims \<and>
   tc_generation claims = generation s \<and> rq \<le> tc_risk_ceiling claims"
  by (auto simp: authorize_def with_state_def and_then_def ensure_def ask_def find_open_def reads_def
        ret_def split: prod.splits option.splits token_state.splits)

text \<open>
  C18. A token closes once. After a successful \<open>commit\<close> of a token, whatever happens next,
  every further \<open>commit\<close> of it is refused as a duplicate close and no \<open>authorize\<close> of it
  succeeds, so no effect runs under a closed token.
\<close>

theorem commit_closes_forever:
  assumes "lc_reachable d s" "commit d ow t v s = (Inr out, s1)" "(lc_step d)\<^sup>*\<^sup>* s1 s2"
  shows "fst (commit d ow t v' s2) = Inl DuplicateClose \<and> fst (authorize d ow' t rq s2) \<noteq> Inr claims"
proof -
  have step: "lc_step d s s1" using assms(2) by (rule lc_step.committed)
  have inv: "lc_inv s1" and cfg: "same_config s s1"
    using lc_step_inv [OF step lc_reachable_inv [OF assms(1)]] by simp_all
  from commit_Inr_closed [OF assms(2)] obtain c where
    c: "map_of (token_states s1) t = Some (Committed c)" "ow = lc_owner s" by blast
  note later = lc_steps_inv [OF assms(3) inv]
  have tok: "map_of (token_states s2) t = Some (Committed c)"
    using later c(1) unfolding table_evolves_def by fastforce
  have "ow = lc_owner s2" using later cfg c(2) by (simp add: same_config_def)
  then have "fst (commit d ow t v' s2) = Inl DuplicateClose"
    using tok
    by (simp add: commit_def commit_inner_def with_state_def and_then_def ensure_def find_open_def)
  then show ?thesis using tok by (simp add: authorize_Inr)
qed

theorem commit_closes_forever_witness:
  "fst (commit mem_deps example_owner ''t'' ok_result mem_closed) = Inl DuplicateClose \<and>
   fst (authorize mem_deps example_owner ''t'' Read mem_closed)
     \<noteq> Inr (claims_for (mem_state mem_start) read_call Read 1 997000004)"
  by (rule commit_closes_forever [OF mem_opened_reachable mem_commit rtranclp.rtrancl_refl])

text \<open>
  \<open>authorize\<close> is exact: it returns claims if and only if the caller is the engine's
  owner, the run is not cancelled, the token is open with those claims, the claims have the
  same owner, the deadline has not passed, the generation is current and the requested risk
  is within the approved ceiling.
\<close>

theorem authorize_exact:
  "fst (authorize d ow t rq s) = Inr claims \<longleftrightarrow>
   ow = lc_owner s \<and> \<not> fst (dep_cancellation d (world s)) \<and>
   (\<exists>rs. map_of (token_states s) t = Some (Open claims rs)) \<and> tc_owner claims = ow \<and>
   fst (clk_now_ms (dep_clock d) (snd (dep_cancellation d (world s)))) < tc_deadline_ms claims \<and>
   tc_generation claims = generation s \<and> rq \<le> tc_risk_ceiling claims"
  by (rule authorize_Inr)

subsection \<open>Durable order and outcomes\<close>

text \<open>
  C19. The durable started record comes first: whenever \<open>prepare\<close> returns an execution
  token, the approval gate had authorised exactly this action in the current generation,
  then the durable boundary had accepted a started record with the call's facts, and only
  then was the token issued; the token is open with the approved ceiling.
\<close>

theorem started_before_token:
  assumes "prepare d ow md s = (Inr (ExecuteOutcome t dl), s')"
  shows "\<exists>now w0 w1 w2 cl i.
     ap_authorize_at (dep_approval d) md (generation s) now w0 = (Inr cl, w1) \<and>
     commit_started (dep_durable d) (started_record md (generation s)) w1 = (Inr (), w2) \<and>
     fst (dep_tokens d w2) = t \<and>
     map_of (token_states s') t = Some (Open (claims_for s md cl (generation s) i) [])"
proof -
  have "wp (prepare d ow md)
     (\<lambda>r s'. case r of ReplayOutcome v \<Rightarrow> True
      | ExecuteOutcome t dl \<Rightarrow> \<exists>now w0 w1 w2 cl i.
          ap_authorize_at (dep_approval d) md (generation s) now w0 = (Inr cl, w1) \<and>
          commit_started (dep_durable d) (started_record md (generation s)) w1 = (Inr (), w2) \<and>
          fst (dep_tokens d w2) = t \<and>
          map_of (token_states s') t = Some (Open (claims_for s md cl (generation s) i) []))
     (\<lambda>_ _. True) s"
    unfolding prepare_def admit_call_def issue_token_def
    by (auto simp: wp_simps lc_wp update_conv' split: option.split) (metis fst_conv)+
  from wp_InrD [OF assms this] show ?thesis by simp
qed

theorem started_before_token_witness:
  "\<exists>now w0 w1 w2 cl i.
     ap_authorize_at mem_approval read_call 1 now w0 = (Inr cl, w1) \<and>
     commit_started mem_durable (started_record read_call 1) w1 = (Inr (), w2) \<and>
     fst (mem_issue w2) = ''t'' \<and>
     map_of (token_states mem_opened) ''t'' = Some (Open (claims_for (mem_state mem_start) read_call cl 1 i) [])"
  using started_before_token [OF mem_prepare]
  by (simp add: mem_deps_def mem_state_def)

text \<open>
  What \<open>commit\<close> does. On success the token was open, the result is canonical and
  within the output budget, the durable boundary accepted it and its value is what the
  envelope carries; the token is closed. On failure either the token table is unchanged, so
  the commit may be retried, or the durable boundary refused the result, the token is
  closed and the token's resources were rolled back once, in order.
\<close>

theorem commit_outcome_exact:
  assumes "commit d ow t v s = (r, s')"
  shows "case r of
     Inr out \<Rightarrow>
       (\<exists>claims rs w w' c. map_of (token_states s) t = Some (Open claims rs) \<and> tc_owner claims = ow \<and>
          dep_json_size d v \<le> tc_output_budget claims \<and> validate_canonical_result v = Inr () \<and>
          commit_result (dep_durable d) (tc_call_id claims) v w = (Inr c, w') \<and> world s' = w' \<and>
          out = \<lparr>envelope = committed_envelope (tc_call_id claims) c\<rparr> \<and>
          token_states s' = AList.update t (Committed (tc_call_id claims)) (token_states s))
   | Inl e \<Rightarrow>
       token_states s' = token_states s \<or>
       (\<exists>claims rs w w'. map_of (token_states s) t = Some (Open claims rs) \<and>
          commit_result (dep_durable d) (tc_call_id claims) v w = (Inl e, w') \<and>
          world s' = fold (dep_rollback d) rs w' \<and>
          token_states s' = AList.update t (Committed (tc_call_id claims)) (token_states s))"
proof -
  let ?Q = "\<lambda>out s'. \<exists>claims rs w w' c. map_of (token_states s) t = Some (Open claims rs) \<and>
          tc_owner claims = ow \<and>
          dep_json_size d v \<le> tc_output_budget claims \<and> validate_canonical_result v = Inr () \<and>
          commit_result (dep_durable d) (tc_call_id claims) v w = (Inr c, w') \<and> world s' = w' \<and>
          out = \<lparr>envelope = committed_envelope (tc_call_id claims) c\<rparr> \<and>
          token_states s' = AList.update t (Committed (tc_call_id claims)) (token_states s)"
  let ?closed = "\<lambda>e s'. \<exists>claims rs w w'. map_of (token_states s) t = Some (Open claims rs) \<and>
          commit_result (dep_durable d) (tc_call_id claims) v w = (Inl e, w') \<and>
          world s' = fold (dep_rollback d) rs w' \<and>
          token_states s' = AList.update t (Committed (tc_call_id claims)) (token_states s)"
  have inner: "wp (commit_inner d ow t v) ?Q (\<lambda>e s'. token_states s' = token_states s \<or> ?closed e s') s"
    unfolding commit_inner_def
    by (auto simp: wp_simps lc_wp roll_back_all_def split: option.split token_state.split sum.split)
       blast+
  obtain ri si where ci: "commit_inner d ow t v s = (ri, si)" by fastforce
  show ?thesis
  proof (cases ri)
    case (Inr out)
    then have "r = Inr out" "si = s'" using assms ci by (simp_all add: commit_def)
    then show ?thesis using wp_InrD [OF ci [unfolded Inr] inner] by simp
  next
    case (Inl e)
    note err = wp_InlD [OF ci [unfolded Inl] inner]
    have r: "r = Inl e" and s': "s' = (if should_rollback_unpublished e then rollback_unpublished d t si else si)"
      using assms ci Inl by (simp_all add: commit_def)
    have "rollback_unpublished d t si = si" if "?closed e si"
      using that by (auto simp: rollback_unpublished_def update_conv')
    moreover have "token_states (rollback_unpublished d t si) = token_states si"
      by (simp add: rollback_unpublished_def roll_back_all_def split: option.split token_state.split)
    ultimately show ?thesis using err by (simp add: r s') presburger
  qed
qed

theorem commit_outcome_exact_witness:
  "\<exists>claims rs c w w'. map_of (token_states mem_opened) ''t'' = Some (Open claims rs) \<and>
     commit_result mem_durable (tc_call_id claims) ok_result w = (Inr c, w') \<and>
     committed_envelope ''call-1'' ok_result = committed_envelope (tc_call_id claims) c"
  using commit_outcome_exact [OF mem_commit] by (auto simp: mem_deps_def)

text \<open>
  C10. Recovery fences every open token. Whether the durable interrupts succeed or not,
  after \<open>recover_open_tokens\<close> no token is open, so no \<open>authorize\<close> succeeds; on success
  exactly the calls that were open are reported and the generation advances.
\<close>

theorem recovery_fences:
  assumes "lc_reachable d s" "recover_open_tokens d s = (r, s')"
  shows "list_all (\<lambda>a. \<not> is_Open (snd a)) (token_states s') \<and>
         map fst (token_states s') = map fst (token_states s) \<and>
         (case r of
            Inr cs \<Rightarrow> cs = map snd (open_calls (token_states s)) \<and> generation s' = generation s + 1
          | Inl e \<Rightarrow> generation s' = generation s) \<and>
         fst (authorize d ow t rq s') \<noteq> Inr claims"
proof -
  have "distinct (map fst (token_states s))"
    using lc_reachable_inv [OF assms(1)] by (simp add: lc_inv_def)
  from recover_effect [OF this, of d] assms(2)
  have ti: "tokens_interrupted s s'" and g: "case r of
            Inr cs \<Rightarrow> cs = map snd (open_calls (token_states s)) \<and> generation s' = generation s + 1
          | Inl e \<Rightarrow> generation s' = generation s"
    by (cases r; simp add: wp_def)+
  have no: "\<not> is_Open st" if "map_of (token_states s') t = Some st" for t st
    using that ti map_of_SomeD [OF that] by (auto simp: tokens_interrupted_def)
  have "fst (authorize d ow t rq s') \<noteq> Inr claims"
    unfolding authorize_Inr using no by fastforce
  then show ?thesis
    using ti g by (auto simp: tokens_interrupted_def list_all_iff comp_def)
qed

theorem recovery_fences_witness:
  "list_all (\<lambda>a. \<not> is_Open (snd a)) (token_states (snd (recover_open_tokens mem_deps mem_opened))) \<and>
   fst (recover_open_tokens mem_deps mem_opened) = Inr [''call-1'']"
proof -
  have "fst (recover_open_tokens mem_deps mem_opened) = Inr [''call-1'']"
    by (simp add: recover_open_tokens_def mem_opened_table run_simps release_resources_def mem_simps)
  then show ?thesis
    using recovery_fences [OF mem_opened_reachable, of _ "snd (recover_open_tokens mem_deps mem_opened)"]
    by (metis prod.collapse)
qed

subsection \<open>Canonical results\<close>

text \<open>The shape of a canonical tool result, stated as a schema.\<close>

definition opt_ok :: "('a \<Rightarrow> bool) \<Rightarrow> 'a option \<Rightarrow> bool" where
  "opt_ok P x = (case x of None \<Rightarrow> True | Some a \<Rightarrow> P a)"

definition canonical_success :: "json_map \<Rightarrow> bool" where
  "canonical_success obj \<longleftrightarrow> (\<exists>c. map_of obj ''content'' = Some (JString c))"

definition canonical_failure :: "json_map \<Rightarrow> bool" where
  "canonical_failure obj \<longleftrightarrow>
     (\<exists>err code. map_of obj ''error'' = Some (JObject err) \<and>
        map_of err ''code'' = Some (JString code) \<and> code \<noteq> [] \<and>
        opt_ok is_string (map_of err ''message'')) \<and>
     opt_ok is_string (map_of obj ''content'')"

definition canonical_result :: "json \<Rightarrow> bool" where
  "canonical_result v \<longleftrightarrow>
     (\<exists>obj ok. v = JObject obj \<and> map_of obj ''ok'' = Some (JBool ok) \<and>
        (if ok then canonical_success obj else canonical_failure obj) \<and>
        opt_ok is_boolean (map_of obj ''truncated'') \<and>
        opt_ok is_object (map_of obj ''data'') \<and>
        opt_ok (\<lambda>a. \<exists>xs. a = JArray xs \<and> (\<forall>x \<in> set xs. is_string x)) (map_of obj ''artifacts''))"

lemma as_object_Some: "as_object v = Some m \<longleftrightarrow> v = JObject m"
  by (cases v) auto

lemma as_array_Some: "as_array v = Some xs \<longleftrightarrow> v = JArray xs"
  by (cases v) auto

lemma optional_fields_Inr:
  "validate_optional_result_fields obj = Inr u \<longleftrightarrow>
     opt_ok is_boolean (map_of obj ''truncated'') \<and> opt_ok is_object (map_of obj ''data'') \<and>
     opt_ok (\<lambda>a. \<exists>xs. a = JArray xs \<and> (\<forall>x \<in> set xs. is_string x)) (map_of obj ''artifacts'')"
  by (auto simp: opt_ok_def as_array_Some list_ex_iff split: option.splits)

lemma failure_fields_Inr: "validate_failure_fields obj = Inr u \<longleftrightarrow> canonical_failure obj"
proof -
  consider (none) "map_of obj ''error'' = None"
    | (other) v where "map_of obj ''error'' = Some v" "as_object v = None"
    | (obj) e where "map_of obj ''error'' = Some (JObject e)"
    by (metis as_object_Some not_None_eq)
  then show ?thesis
  proof cases
    case none
    then show ?thesis by (simp add: validate_failure_fields_def canonical_failure_def)
  next
    case other
    then show ?thesis by (auto simp: validate_failure_fields_def canonical_failure_def)
  next
    case (obj e)
    then show ?thesis
      by (cases "map_of e ''code''")
         (auto simp: validate_failure_fields_def canonical_failure_def opt_ok_def Let_def
               split: json.splits list.splits option.splits)
  qed
qed

text \<open>
  \<open>validate_canonical_result\<close> accepts exactly the canonical results: a map with a
  boolean \<open>ok\<close>; on success a string content; on failure a non-empty error code with
  optional string message and content; optional fields of the right type.
\<close>

theorem validate_canonical_result_exact:
  "validate_canonical_result v = Inr () \<longleftrightarrow> canonical_result v"
proof (cases v)
  case (JObject obj)
  show ?thesis
  proof (cases "\<exists>ok. map_of obj ''ok'' = Some (JBool ok)")
    case True
    then obtain ok where ok: "map_of obj ''ok'' = Some (JBool ok)" by blast
    show ?thesis
    proof (cases ok)
      case True
      then show ?thesis
        using JObject ok optional_fields_Inr [of obj "()"]
        by (auto simp: validate_canonical_result_def canonical_result_def canonical_success_def
              simp del: validate_optional_result_fields.simps split: option.splits json.splits)
    next
      case False
      then show ?thesis
        using JObject ok optional_fields_Inr [of obj "()"] failure_fields_Inr [of obj "()"]
        by (auto simp: validate_canonical_result_def canonical_result_def
              simp del: validate_optional_result_fields.simps split: sum.splits)
    qed
  next
    case False
    then show ?thesis using JObject
      by (auto simp: validate_canonical_result_def canonical_result_def split: option.splits json.splits)
  qed
qed (simp_all add: validate_canonical_result_def canonical_result_def)

end
