(* ===== verification/Artifact_Properties.thy ===== *)
theory Artifact_Properties
  imports Artifact_Store Lifecycle_Properties
begin

section \<open>Quotas, isolation and single publication of artifacts\<close>

text \<open>
  The store keeps its quotas exactly (\<open>art_reach\<close> is every history of stores, publications
  and retractions), returns what was stored, hides other owners' and other generations'
  objects, and publishes at most one result per call. \<open>art_deps\<close> adds the store to an
  engine's world: the other trait objects act on the rest of the world.
\<close>

subsection \<open>Quotas\<close>

inductive art_reach :: "capability_owner \<Rightarrow> artifact_limits \<Rightarrow> artifact_store \<Rightarrow> artifact_guard list \<Rightarrow> bool"
  for ow lim where
  created: "artifact_new ow lim = Inr st \<Longrightarrow> art_reach ow lim st []"
| kept: "art_reach ow lim st gs \<Longrightarrow> uuid \<notin> fst ` set (objects st) \<union> guard_id ` set gs \<Longrightarrow>
    store_bytes uuid claims bytes md st = (r, st') \<Longrightarrow> art_reach ow lim st' gs"
| published: "art_reach ow lim st gs \<Longrightarrow> uuid \<notin> fst ` set (objects st) \<union> guard_id ` set gs \<Longrightarrow>
    claim_call key st = (Inr (), st1) \<Longrightarrow> store_bytes uuid claims bytes md st1 = (Inr r, st2) \<Longrightarrow>
    new_guard r key st2 = (Inr g, st3) \<Longrightarrow> art_reach ow lim st3 (g # gs)"
| withdrawn: "art_reach ow lim st gs \<Longrightarrow> g \<in> set gs \<Longrightarrow> art_reach ow lim (retract g st) gs"

definition stored_bytes :: "artifact_store \<Rightarrow> nat" where
  "stored_bytes st = sum_list (map (\<lambda>a. length (rec_bytes (snd a))) (objects st))"

definition quota_ok :: "artifact_store \<Rightarrow> bool" where
  "quota_ok st \<longleftrightarrow>
     distinct (map fst (objects st)) \<and> total_bytes st = stored_bytes st \<and>
     stored_bytes st \<le> max_total_bytes (art_limits st) \<and>
     length (objects st) \<le> max_objects (art_limits st) \<and>
     list_all (\<lambda>a. length (rec_bytes (snd a)) \<le> max_object_bytes (art_limits st)) (objects st)"

definition guard_ok :: "artifact_store \<Rightarrow> artifact_guard \<Rightarrow> bool" where
  "guard_ok st g \<longleftrightarrow>
     (case map_of (objects st) (guard_id g) of None \<Rightarrow> True | Some r \<Rightarrow> length (rec_bytes r) = guard_len g)"

lemma store_bytes_Inr:
  assumes "store_bytes uuid claims bytes md st = (Inr r, st')" "map_of (objects st) uuid = None"
    and "max_total_bytes (art_limits st) < 2 ^ 64 - 1"
  shows "objects st' = objects st @ [(uuid, \<lparr>owner_key_of = owner_key (tc_owner claims),
           rec_generation = tc_generation claims, rec_bytes = bytes, rec_hash = content_hash bytes,
           rec_metadata = md\<rparr>)]"
    and "total_bytes st' = total_bytes st + length bytes"
    and "art_limits st' = art_limits st" and "length bytes \<le> max_object_bytes (art_limits st)"
    and "length (objects st) < max_objects (art_limits st)"
    and "total_bytes st + length bytes \<le> max_total_bytes (art_limits st)"
    and "r = \<lparr>ref_id = uuid, ref_len = length bytes, ref_hash = content_hash bytes, ref_metadata = md\<rparr>"
    and "result_calls st' = result_calls st"
  using assms
  by (auto simp: store_bytes_def Let_def usize_saturating_add_def update_fresh min_def split: if_splits)

lemma store_bytes_Inl: "store_bytes uuid claims bytes md st = (Inl e, st') \<Longrightarrow> st' = st"
  by (auto simp: store_bytes_def Let_def split: if_splits)

lemma quota_store:
  assumes "quota_ok st" "store_bytes uuid claims bytes md st = (Inr r, st')" "map_of (objects st) uuid = None"
    and "max_total_bytes (art_limits st) < 2 ^ 64 - 1"
  shows "quota_ok st'"
  using assms(1) store_bytes_Inr [OF assms(2-4)] assms(3)
  by (auto simp: quota_ok_def stored_bytes_def map_of_eq_None_iff)

lemma stored_bytes_delete:
  assumes "distinct (map fst m)" "map_of m k = Some r"
  shows "sum_list (map (\<lambda>a. length (rec_bytes (snd a))) m) =
         sum_list (map (\<lambda>a. length (rec_bytes (snd a))) (AList.delete k m)) + length (rec_bytes r)"
  using assms
proof (induction m)
  case (Cons a m)
  show ?case
  proof (cases "fst a = k")
    case True
    with Cons.prems have "map_of m k = None" by (auto simp: map_of_eq_None_iff)
    then have "AList.delete k m = m" by (simp add: AList.delete_eq map_of_eq_None_iff filter_id_conv image_iff) force
    with True Cons.prems show ?thesis by (cases a) (simp add: AList.delete_eq)
  next
    case False
    with Cons show ?thesis by (cases a) (simp add: AList.delete_eq)
  qed
qed simp

lemma retract_cases:
  "retract g st = st \<or>
   (map_of (objects st) (guard_id g) = None \<and> objects (retract g st) = objects st \<and>
      total_bytes (retract g st) = total_bytes st) \<or>
   (\<exists>r. map_of (objects st) (guard_id g) = Some r \<and>
      objects (retract g st) = AList.delete (guard_id g) (objects st) \<and>
      total_bytes (retract g st) = total_bytes st - guard_len g)"
  by (simp add: retract_def Let_def split: option.split)

lemma retract_limits [simp]: "art_limits (retract g st) = art_limits st"
  by (simp add: retract_def Let_def split: option.split)

lemma quota_retract:
  assumes "quota_ok st" "guard_ok st g"
  shows "quota_ok (retract g st)"
proof -
  have d: "distinct (map fst (objects st))" using assms(1) by (simp add: quota_ok_def)
  consider (same) "retract g st = st"
    | (gone) "objects (retract g st) = objects st" "total_bytes (retract g st) = total_bytes st"
    | (removed) r where "map_of (objects st) (guard_id g) = Some r"
        "objects (retract g st) = AList.delete (guard_id g) (objects st)"
        "total_bytes (retract g st) = total_bytes st - guard_len g"
    using retract_cases [of g st] by blast
  then show ?thesis
  proof cases
    case same
    then show ?thesis using assms(1) by simp
  next
    case gone
    then show ?thesis using assms(1) by (simp add: quota_ok_def stored_bytes_def)
  next
    case removed
    have "stored_bytes st = stored_bytes (retract g st) + guard_len g"
      using stored_bytes_delete [OF d removed(1)] removed assms(2)
      by (simp add: stored_bytes_def guard_ok_def)
    then show ?thesis
      using assms(1) removed
      by (auto simp: quota_ok_def list_all_iff AList.delete_eq distinct_map_filter
               intro: le_trans [OF length_filter_le])
  qed
qed

lemma guard_ok_store:
  assumes "store_bytes uuid claims bytes md st = (Inr r, st')" "map_of (objects st) uuid = None"
    and "max_total_bytes (art_limits st) < 2 ^ 64 - 1" "guard_ok st g" "guard_id g \<noteq> uuid"
  shows "guard_ok st' g"
  using assms(4,5) store_bytes_Inr(1) [OF assms(1-3)]
  by (simp add: guard_ok_def map_add_def split: option.splits)

lemma guard_ok_retract:
  assumes "guard_ok st g"
  shows "guard_ok (retract g' st) g"
  using assms retract_cases [of g' st]
  by (auto simp: guard_ok_def delete_conv' split: option.splits if_splits)

lemma claim_call_store [simp]:
  "claim_call key st = (r, st') \<Longrightarrow> objects st' = objects st \<and> total_bytes st' = total_bytes st \<and>
     art_limits st' = art_limits st"
  by (auto simp: claim_call_def split: if_splits)

lemma art_reach_inv:
  assumes "art_reach ow lim st gs" "max_total_bytes lim < 2 ^ 64 - 1"
  shows "quota_ok st \<and> art_limits st = lim \<and> (\<forall>g \<in> set gs. guard_ok st g)"
  using assms(1)
proof induction
  case (created st)
  then show ?case
    by (auto simp: artifact_new_def quota_ok_def stored_bytes_def split: if_splits)
next
  case (kept st gs uuid claims bytes md r st')
  then have u: "map_of (objects st) uuid = None" "\<forall>g \<in> set gs. guard_id g \<noteq> uuid"
    by (auto simp: map_of_eq_None_iff)
  show ?case
  proof (cases r)
    case (Inl e)
    then show ?thesis using kept store_bytes_Inl by blast
  next
    case (Inr ref)
    note sb = kept.hyps(3) [unfolded Inr]
    have m: "max_total_bytes (art_limits st) < 2 ^ 64 - 1" using kept.IH assms(2) by simp
    show ?thesis
      using kept.IH quota_store [OF _ sb u(1) m] store_bytes_Inr(3) [OF sb u(1) m]
        guard_ok_store [OF sb u(1) m] u(2) by simp
  qed
next
  case (published st gs uuid key st1 claims bytes md r st2 g st3)
  note cl = claim_call_store [OF published.hyps(3)]
  have u: "map_of (objects st1) uuid = None" "\<forall>g \<in> set gs. guard_id g \<noteq> uuid"
    using published.hyps(2) cl by (auto simp: map_of_eq_None_iff)
  have m: "max_total_bytes (art_limits st1) < 2 ^ 64 - 1" using published.IH assms(2) cl by simp
  have q1: "quota_ok st1" "\<forall>g \<in> set gs. guard_ok st1 g"
    using published.IH cl by (auto simp: quota_ok_def stored_bytes_def guard_ok_def)
  note sb = store_bytes_Inr [OF published.hyps(4) u(1) m]
  have g: "g = \<lparr>guard_id = ref_id r, guard_call_key = key, guard_len = ref_len r, guard_serial = guards_made st2\<rparr>"
    and st3: "st3 = st2\<lparr>guards_made := Suc (guards_made st2)\<rparr>"
    using published.hyps(5) by (auto simp: new_guard_def)
  have "guard_ok st3 g" using sb u(1) by (simp add: g st3 guard_ok_def map_add_def)
  moreover have "\<forall>g \<in> set gs. guard_ok st3 g"
    using guard_ok_store [OF published.hyps(4) u(1) m] q1(2) u(2) by (simp add: st3 guard_ok_def)
  moreover have "quota_ok st3"
    using quota_store [OF q1(1) published.hyps(4) u(1) m] by (simp add: st3 quota_ok_def stored_bytes_def)
  ultimately show ?case using sb(3) published.IH cl by (simp add: st3)
next
  case (withdrawn st gs g)
  then show ?case using quota_retract guard_ok_retract by auto
qed

text \<open>
  C5. The artifact quotas are exact. In every history of stores, publications and
  retractions, the byte counter is the total size of the objects held, it never exceeds
  \<open>max_total_bytes\<close>, there are never more than \<open>max_objects\<close> objects and none is larger
  than \<open>max_object_bytes\<close>. (The total bound is below the largest \<open>usize\<close>; identifiers are
  fresh.)
\<close>

theorem artifact_quotas:
  assumes "art_reach ow lim st gs" "max_total_bytes lim < 2 ^ 64 - 1"
  shows "total_bytes st = stored_bytes st \<and> total_bytes st \<le> max_total_bytes lim \<and>
         stored_len st \<le> max_objects lim \<and>
         list_all (\<lambda>a. length (rec_bytes (snd a)) \<le> max_object_bytes lim) (objects st)"
  using art_reach_inv [OF assms] by (auto simp: quota_ok_def stored_len_def)

definition small_limits :: artifact_limits where
  "small_limits = \<lparr>max_object_bytes = 4, max_total_bytes = 8, max_objects = 2\<rparr>"

definition example_claims :: token_claims where
  "example_claims = claims_for (mem_state mem_start) read_call Read 1 0"

definition empty_store :: artifact_store where
  "empty_store = \<lparr>art_owner = example_owner, art_limits = small_limits, objects = [], total_bytes = 0,
     result_calls = [], released = [], guards_made = 0\<rparr>"

theorem artifact_quotas_witness:
  "let st = snd (store_bytes ''id-1'' example_claims ''abc'' JNull empty_store) in
   stored_len st = 1 \<and> total_bytes st = 3 \<and> total_bytes st = stored_bytes st \<and> total_bytes st \<le> 8"
proof -
  let ?st = "snd (store_bytes ''id-1'' example_claims ''abc'' JNull empty_store)"
  have "art_reach example_owner small_limits empty_store []"
    by (rule art_reach.created) (simp add: artifact_new_def empty_store_def small_limits_def)
  then have "art_reach example_owner small_limits ?st []"
    by (rule art_reach.kept [where uuid = "''id-1''" and claims = example_claims and bytes = "''abc''" and md = JNull])
       (simp_all add: empty_store_def prod_eq_iff)
  from artifact_quotas [OF this] show ?thesis
    by (simp add: small_limits_def store_bytes_def empty_store_def stored_len_def usize_saturating_add_def
          stored_bytes_def Let_def)
qed

subsection \<open>Resources of a token\<close>








subsection \<open>The store in an engine's world\<close>

definition lift_eff :: "('v, 'e, 'a) eff \<Rightarrow> ('v art_world, 'e, 'a) eff" where
  "lift_eff m w = (case m (art_rest w) of (r, v) \<Rightarrow> (r, w\<lparr>art_rest := v\<rparr>))"

definition lift_read :: "('v \<Rightarrow> 'a \<times> 'v) \<Rightarrow> 'v art_world \<Rightarrow> 'a \<times> 'v art_world" where
  "lift_read m w = (case m (art_rest w) of (a, v) \<Rightarrow> (a, w\<lparr>art_rest := v\<rparr>))"

definition art_deps :: "('v, 'x) lifecycle_deps \<Rightarrow> ('v art_world, artifact_guard) lifecycle_deps" where
  "art_deps b =
     \<lparr>dep_clock = \<lparr>clk_now_ms = lift_read (clk_now_ms (dep_clock b)), clk_now = lift_read (clk_now (dep_clock b))\<rparr>,
      dep_tokens = lift_read (dep_tokens b),
      dep_durable =
        \<lparr>assert_active_run = (\<lambda>r. lift_eff (assert_active_run (dep_durable b) r)),
         prepare_parent = (\<lambda>r c t. lift_eff (prepare_parent (dep_durable b) r c t)),
         replay_result = (\<lambda>r c t. lift_eff (replay_result (dep_durable b) r c t)),
         commit_started = (\<lambda>rec. lift_eff (commit_started (dep_durable b) rec)),
         commit_result = (\<lambda>c v. lift_eff (commit_result (dep_durable b) c v)),
         durable_interrupt = (\<lambda>c. lift_eff (durable_interrupt (dep_durable b) c))\<rparr>,
      dep_approval =
        \<lparr>ap_attest = (\<lambda>ow md g n dl. lift_eff (ap_attest (dep_approval b) ow md g n dl)),
         ap_authorize_at = (\<lambda>md g n. lift_eff (ap_authorize_at (dep_approval b) md g n))\<rparr>,
      dep_cancellation = lift_read (dep_cancellation b),
      dep_release = release_guard, dep_rollback = release_guard, dep_json_size = dep_json_size b\<rparr>"

definition store_same :: "'v art_engine \<Rightarrow> 'v art_engine \<Rightarrow> bool" where
  "store_same s s' \<longleftrightarrow> (\<exists>w. s' = s\<lparr>world := w\<rparr> \<and> art_store w = art_store (world s))"

lemma store_sameI [intro!]: "art_store w = art_store (world s) \<Longrightarrow> store_same s (s\<lparr>world := w\<rparr>)"
  by (auto simp: store_same_def)

lemma store_same_refl [intro!]: "store_same s s"
  unfolding store_same_def by (rule exI [of _ "world s"]) simp

locale artifact_env =
  fixes d :: "('v art_world, artifact_guard) lifecycle_deps"
  assumes cancellation_store: "art_store (snd (dep_cancellation d w)) = art_store w"
    and clock_store: "art_store (snd (clk_now_ms (dep_clock d) w)) = art_store w"
begin

lemma authorize_world:
  "wp (authorize d ow t rq)
     (\<lambda>c s'. store_same s s' \<and> (\<exists>rs. map_of (token_states s) t = Some (Open c rs)))
     (\<lambda>e s'. store_same s s') s"
proof -
  have c: "dep_cancellation d v = (b, w) \<Longrightarrow> art_store w = art_store v" for v b w
    using cancellation_store [of v] by simp
  have k: "clk_now_ms (dep_clock d) v = (b, w) \<Longrightarrow> art_store w = art_store v" for v b w
    using clock_store [of v] by simp
  show ?thesis
    unfolding authorize_def
    by (auto simp: wp_simps wp_find_open c k intro!: wp_ask split: option.split token_state.split)
qed

lemma art_authorize_Inr:
  assumes "art_authorize d t rq s = (Inr c, s')"
  shows "\<exists>w rs. s' = s\<lparr>world := w\<rparr> \<and> art_store w = art_store (world s) \<and>
           map_of (token_states s) t = Some (Open c rs)"
proof -
  have "authorize d (art_owner (art_store (world s))) t rq s = (Inr c, s')"
    using assms by (auto simp: art_authorize_def with_state_def map_err_def split: prod.splits sum.splits)
  from wp_InrD [OF this authorize_world] show ?thesis by (auto simp: store_same_def)
qed

lemma art_authorize_same_claims:
  assumes "art_authorize d t rq s = (Inr c, s1)" "art_authorize d t rq' s' = (Inr c', s2)"
    and "map_of (token_states s') t = Some (Open c rs)"
  shows "c' = c"
  using art_authorize_Inr [OF assms(2)] assms(3) by auto

end

interpretation lifted_env: artifact_env "art_deps b" for b
  by unfold_locales (simp_all add: art_deps_def lift_read_def split: prod.splits)


subsection \<open>Round trip, isolation, single publication\<close>

lemma art_authorize_cases:
  obtains (err) e where "fst (art_authorize d t rq s) = Inl e"
  | (ok) c s' where "art_authorize d t rq s = (Inr c, s')"
  by (cases "art_authorize d t rq s"; cases "fst (art_authorize d t rq s)") auto

lemma get_eq:
  "fst (get d t i s) =
     (case art_authorize d t Read s of
        (Inl e, s') \<Rightarrow> Inl e
      | (Inr c, s') \<Rightarrow>
          (case map_of (objects (art_store (world s'))) i of
             None \<Rightarrow> Inl not_found
           | Some r \<Rightarrow>
               if owner_key_of r = owner_key (tc_owner c) \<and> rec_generation r = tc_generation c
               then Inr (rec_bytes r) else Inl not_found))"
  by (auto simp: get_def lookup_def and_then_def ret_def split: prod.splits sum.splits option.splits)

definition art_example :: "mem_world art_engine" where
  "art_example =
     \<lparr>lc_owner = example_owner, lc_registry_identity = ''registry'', lc_workspace = ''/work'',
      lc_limits = \<lparr>max_tool_calls = 2, max_output_bytes = 100, max_summary_bytes = 64\<rparr>,
      lc_deadline_ms = 1000, generation = 1, call_count = 1,
      token_states = [(''t'', Open (example_claims\<lparr>tc_risk_ceiling := Write\<rparr>) [])],
      world = \<lparr>art_store = empty_store, art_rest = mem_start\<rparr>\<rparr>"

lemmas art_run =
  art_example_def art_authorize_def map_err_def authorize_def with_state_def and_then_def ensure_def
  ask_def find_open_def reads_def ret_def art_deps_def lift_read_def mem_deps_def never_cancelled_def
  mem_tick_def mem_start_def example_claims_def claims_for_def mem_state_def read_call_def
  example_metadata_def example_owner_def empty_store_def small_limits_def less_eq_capability_risk_def

text \<open>
  C24. What was put can be read back: after a successful \<open>put\<close>, \<open>get\<close> with the same
  token returns exactly the stored bytes, or the error of authorising the token again; and
  the reference carries the SHA-256 content hash and the length of those bytes.
\<close>

theorem put_then_get:
  assumes "put (art_deps b) uuid t bytes md s = (Inr r, s')"
  shows "fst (get (art_deps b) t (ref_id r) s') =
           (case fst (art_authorize (art_deps b) t Read s') of Inl e \<Rightarrow> Inl e | Inr c \<Rightarrow> Inr bytes) \<and>
         ref_hash r = content_hash bytes \<and> ref_len r = length bytes"
proof -
  from assms obtain c s1 where a: "art_authorize (art_deps b) t Write s = (Inr c, s1)"
    and st: "on_store (store_bytes uuid c bytes md) s1 = (Inr r, s')"
    by (auto simp: put_def put_with_risk_def and_then_Inr)
  from lifted_env.art_authorize_Inr [OF a] obtain w rs where
    tok: "map_of (token_states s1) t = Some (Open c rs)" by auto
  from st obtain st' where sb: "store_bytes uuid c bytes md (art_store (world s1)) = (Inr r, st')"
    and s': "s' = s1\<lparr>world := (world s1)\<lparr>art_store := st'\<rparr>\<rparr>"
    by (auto simp: on_store_def split: prod.splits)
  from sb have r: "ref_id r = uuid" "ref_hash r = content_hash bytes" "ref_len r = length bytes"
    and ob: "\<exists>x. map_of (objects st') uuid = Some x \<and> owner_key_of x = owner_key (tc_owner c) \<and>
             rec_generation x = tc_generation c \<and> rec_bytes x = bytes"
    by (auto simp: store_bytes_def Let_def update_conv' split: if_splits)
  have tok': "map_of (token_states s') t = Some (Open c rs)" using tok by (simp add: s')
  show ?thesis
  proof (cases rule: art_authorize_cases [of "art_deps b" t Read s'])
    case (err e)
    then show ?thesis using r by (cases "art_authorize (art_deps b) t Read s'") (simp add: get_eq)
  next
    case (ok c' s'')
    have "c' = c" by (rule lifted_env.art_authorize_same_claims [OF a ok tok'])
    moreover have "art_store (world s'') = st'"
      using lifted_env.art_authorize_Inr [OF ok] by (auto simp: s')
    ultimately show ?thesis using ok ob r by (auto simp: get_eq)
  qed
qed

definition art_put :: "(capability_error, artifact_ref) result \<times> mem_world art_engine" where
  "art_put = put (art_deps mem_deps) ''id-1'' ''t'' ''abc'' JNull art_example"

lemma art_put_ok: "\<exists>r. fst art_put = Inr r \<and> ref_id r = ''id-1''"
  by (simp add: art_put_def put_def put_with_risk_def on_store_def store_bytes_def usize_saturating_add_def Let_def art_run)

lemma art_put_authorized: "\<exists>c. fst (art_authorize (art_deps mem_deps) ''t'' Read (snd art_put)) = Inr c"
  by (simp add: art_put_def put_def put_with_risk_def on_store_def store_bytes_def usize_saturating_add_def Let_def art_run)

theorem put_then_get_witness:
  "fst (get (art_deps mem_deps) ''t'' ''id-1'' (snd art_put)) = Inr ''abc''"
proof -
  obtain r where r: "fst art_put = Inr r" "ref_id r = ''id-1''" using art_put_ok by blast
  then have "put (art_deps mem_deps) ''id-1'' ''t'' ''abc'' JNull art_example = (Inr r, snd art_put)"
    by (simp add: art_put_def prod_eq_iff)
  from put_then_get [OF this] r(2) art_put_authorized show ?thesis by auto
qed




lemma store_bytes_calls: "store_bytes u c b m st = (x, st') \<Longrightarrow> result_calls st' = result_calls st"
  by (auto simp: store_bytes_def Let_def split: if_splits)

lemma claim_call_Inr: "claim_call k st = (Inr u, st') \<Longrightarrow> k \<in> set (result_calls st')"
  by (auto simp: claim_call_def split: if_splits)

lemma on_store_eq:
  "on_store m s = (x, s') \<longleftrightarrow>
   (\<exists>st. m (art_store (world s)) = (x, st) \<and> s' = s\<lparr>world := (world s)\<lparr>art_store := st\<rparr>\<rparr>)"
  by (auto simp: on_store_def split: prod.splits)

lemma register_open:
  assumes "map_of (token_states s) t = Some (Open c rs)"
  shows "register_resource d t g s =
    (Inr (), s\<lparr>token_states := AList.update t (Open c (rs @ [g])) (token_states s)\<rparr>)"
  using assms by (simp add: register_resource_def)

text \<open>
  C26. A call publishes at most one result: after a successful \<open>put_result\<close>, a second one
  under the same token fails, whatever its bytes, metadata and identifier.
\<close>

theorem single_result_per_call:
  assumes "put_result (art_deps b) enc uuid t bytes md s = (Inr r, s')"
  shows "fst (put_result (art_deps b) enc uuid' t bytes' md' s') \<noteq> Inr r'"
proof
  assume again: "fst (put_result (art_deps b) enc uuid' t bytes' md' s') = Inr r'"
  from assms obtain c s1 s2 bound where a: "art_authorize (art_deps b) t Read s = (Inr c, s1)"
    and cl: "on_store (claim_call (result_call_key c)) s1 = (Inr (), s2)"
    and rest: "(case on_store (store_bytes uuid c bytes bound) s2 of
       (Inr r, s') \<Rightarrow> publish (art_deps b) t (result_call_key c) r s'
     | (Inl e, s') \<Rightarrow> (Inl e, snd (on_store (\<lambda>st. (Inr (), st\<lparr>result_calls :=
            removeAll (result_call_key c) (result_calls st)\<rparr>)) s'))) = (Inr r, s')"
    by (auto simp: put_result_def and_then_Inr)
  obtain q s3 where q: "on_store (store_bytes uuid c bytes bound) s2 = (q, s3)" by fastforce
  with rest obtain r0 where sb: "on_store (store_bytes uuid c bytes bound) s2 = (Inr r0, s3)"
    and pub: "publish (art_deps b) t (result_call_key c) r0 s3 = (Inr r, s')"
    by (cases q) auto
  from lifted_env.art_authorize_Inr [OF a] obtain rs where
    tok1: "map_of (token_states s1) t = Some (Open c rs)" by auto
  have tok3: "map_of (token_states s3) t = Some (Open c rs)"
    using tok1 cl sb by (auto simp: on_store_def split: prod.splits)
  have key: "result_call_key c \<in> set (result_calls (art_store (world s3)))"
    using cl sb claim_call_Inr store_bytes_calls by (fastforce simp: on_store_eq)
  have tok: "map_of (token_states s') t = Some (Open c (rs @ [g])) \<or>
             (\<exists>g. map_of (token_states s') t = Some (Open c (rs @ [g])))" for g
    using pub tok3 by (auto simp: publish_def and_then_def on_store_def new_guard_def register_open update_conv')
  then obtain g where tok': "map_of (token_states s') t = Some (Open c (rs @ [g]))" by blast
  have key': "result_call_key c \<in> set (result_calls (art_store (world s')))"
    using pub tok3 key by (auto simp: publish_def and_then_def on_store_def new_guard_def register_open)
  from again obtain c' s1' where a': "art_authorize (art_deps b) t Read s' = (Inr c', s1')"
    and cl': "fst (on_store (claim_call (result_call_key c')) s1') = Inr ()"
    by (auto simp: put_result_def and_then_def split: prod.splits sum.splits)
  have "c' = c" by (rule lifted_env.art_authorize_same_claims [OF a a' tok'])
  moreover have "art_store (world s1') = art_store (world s')"
    using lifted_env.art_authorize_Inr [OF a'] by auto
  ultimately show False using cl' key' by (simp add: on_store_def claim_call_def)
qed

lemma put_result_ok:
  assumes "art_authorize d t Read s = (Inr c, s1)" "map_of (token_states s1) t = Some (Open c rs)"
    and "bind_result_metadata enc md c = Inr B"
    and "result_call_key c \<notin> set (result_calls (art_store (world s1)))"
    and "store_bytes u c bytes B
           ((art_store (world s1))\<lparr>result_calls := result_call_key c # result_calls (art_store (world s1))\<rparr>) = (Inr r, st)"
  shows "fst (put_result d enc u t bytes md s) = Inr r"
  using assms
  by (simp add: put_result_def and_then_def on_store_def claim_call_def publish_def new_guard_def register_open)

definition art_published :: "(capability_error, artifact_ref) result \<times> mem_world art_engine" where
  "art_published = put_result (art_deps mem_deps) (\<lambda>v. 2) ''id-1'' ''t'' ''abc'' (JObject []) art_example"

lemma art_published_ok: "\<exists>r. fst art_published = Inr r"
proof -
  let ?c = "example_claims\<lparr>tc_risk_ceiling := Write\<rparr>"
  have "fst (art_authorize (art_deps mem_deps) ''t'' Read art_example) = Inr ?c"
    by (simp add: art_run)
  then obtain s1 where a: "art_authorize (art_deps mem_deps) ''t'' Read art_example = (Inr ?c, s1)"
    by (metis prod.collapse)
  from lifted_env.art_authorize_Inr [OF a] have s1: "art_store (world s1) = empty_store"
    "token_states s1 = [(''t'', Open ?c [])]"
    by (auto simp: art_example_def)
  obtain B where bm: "bind_result_metadata (\<lambda>v. 2) (JObject []) ?c = Inr B"
    by (simp add: bind_result_metadata_def)
  let ?st = "empty_store\<lparr>result_calls := [result_call_key ?c]\<rparr>"
  have "\<exists>r st. store_bytes ''id-1'' ?c ''abc'' B ?st = (Inr r, st)"
    by (simp add: store_bytes_def empty_store_def small_limits_def usize_saturating_add_def Let_def)
  then obtain r st where sb: "store_bytes ''id-1'' ?c ''abc'' B ?st = (Inr r, st)" by blast
  have "result_call_key ?c \<notin> set (result_calls (art_store (world s1)))"
    "map_of (token_states s1) ''t'' = Some (Open ?c [])"
    "store_bytes ''id-1'' ?c ''abc'' B
       ((art_store (world s1))\<lparr>result_calls := result_call_key ?c # result_calls (art_store (world s1))\<rparr>) = (Inr r, st)"
    using sb by (simp_all add: s1 empty_store_def)
  from put_result_ok [OF a this(2) bm this(1,3)] show ?thesis by (simp add: art_published_def)
qed

theorem single_result_per_call_witness:
  "fst (put_result (art_deps mem_deps) (\<lambda>v. 2) ''id-2'' ''t'' ''x'' (JObject []) (snd art_published))
   \<noteq> Inr \<lparr>ref_id = ''id-2'', ref_len = 1, ref_hash = [], ref_metadata = JNull\<rparr>"
proof -
  obtain r where "fst art_published = Inr r" using art_published_ok by blast
  then have "put_result (art_deps mem_deps) (\<lambda>v. 2) ''id-1'' ''t'' ''abc'' (JObject []) art_example =
      (Inr r, snd art_published)"
    by (simp add: art_published_def prod_eq_iff)
  then show ?thesis by (rule single_result_per_call)
qed

text \<open>
  Result metadata is rebound, never trusted: \<open>bind_result_metadata\<close> accepts an object
  within 256 encoded bytes whose only key, if any, is \<open>call_id\<close> naming the token's own call
  in at most 128 bytes, and then returns the call, run and owner of the token's claims.
\<close>

theorem bind_result_metadata_exact:
  "bind_result_metadata enc_len v claims = Inr out \<longleftrightarrow>
     (\<exists>m. v = JObject m \<and> enc_len v \<le> 256 \<and>
        list_all (\<lambda>(k, x). k = ''call_id'' \<and> x = JString (tc_call_id claims) \<and> length (tc_call_id claims) \<le> 128) m) \<and>
     out = jobject [(''call_id'', JString (tc_call_id claims)), (''run'', JString (run (tc_owner claims))),
                    (''owner'', JString (owner_key (tc_owner claims)))]"
proof -
  have f: "check_result_fields c m = Inr u \<longleftrightarrow>
      list_all (\<lambda>(k, x). k = ''call_id'' \<and> x = JString c \<and> length c \<le> 128) m" for c m and u :: unit
  proof (induction c m rule: check_result_fields.induct)
    case (2 c k v m)
    then show ?case by (cases v) auto
  qed simp
  show ?thesis
    by (cases v) (auto simp: bind_result_metadata_def f split: sum.splits,
        (metis f old.sum.exhaust sum.distinct(1))+)
qed

end
