(* ===== verification/Request_Form.thy ===== *)
theory Request_Form
  imports Agent_Prelude
begin

section \<open>Request bodies with injected secrets: forms (\<open>auth/request_body.rs\<close>)\<close>

text \<open>
  \<open>encode_injected_body\<close> takes a public body and a list of secret fields and produces the
  body that is sent. This theory has the shared definitions (fields, errors, the reserved
  names) and the form encoding; \<open>Request_Json\<close> has the JSON encoding.

  \<open>form_pairs\<close> is how a receiver reads a form. The main result is that the receiver sees
  exactly the public pairs followed by the secret fields, and that no public key can stand
  for, or shadow, a secret field or a reserved name.
\<close>

definition MAX_BODY_BYTES :: nat where "MAX_BODY_BYTES = 64 * 1024"
definition MAX_FIELDS :: nat where "MAX_FIELDS = 8"
definition MAX_FIELD_NAME_BYTES :: nat where "MAX_FIELD_NAME_BYTES = 64"

definition RESERVED_PUBLIC_KEYS :: "string list" where
  "RESERVED_PUBLIC_KEYS =
     [''access_token'', ''refresh_token'', ''id_token'', ''device_code'', ''device_auth_id'', ''device_id'',
      ''authorization_code'', ''code_verifier'', ''verifier'', ''client_secret'', ''password'', ''api_key'',
      ''authorization'', ''cookie'', ''code'']"

datatype request_body_encoding = Form | JsonObject

fun content_type :: "request_body_encoding \<Rightarrow> string" where
  "content_type Form = ''application/x-www-form-urlencoded''"
| "content_type JsonObject = ''application/json''"

record secret_field =
  sf_name :: string
  sf_value :: string

datatype request_body_error =
    InputTooLarge | OutputTooLarge | TooManyFields | InvalidFieldName | EmptySecret | SecretTooLarge
  | SecretContainsNul | DuplicateInjectedField | InvalidFormEncoding | InvalidFormUtf8 | EmptyFormKey
  | DuplicatePublicKey | ReservedPublicKey | InvalidJson | DuplicateJsonKey | JsonTopLevelNotObject
  | JsonDepthExceeded

fun body_error_message :: "request_body_error \<Rightarrow> string" where
  "body_error_message InputTooLarge = ''public request body exceeds the size limit''"
| "body_error_message OutputTooLarge = ''encoded request body exceeds the size limit''"
| "body_error_message TooManyFields = ''too many injected secret fields''"
| "body_error_message InvalidFieldName = ''invalid secret field name''"
| "body_error_message EmptySecret = ''secret field value must not be empty''"
| "body_error_message SecretTooLarge = ''secret field value exceeds the size limit''"
| "body_error_message SecretContainsNul = ''secret field value contains a NUL byte''"
| "body_error_message DuplicateInjectedField = ''duplicate injected secret field name''"
| "body_error_message InvalidFormEncoding = ''invalid form percent encoding''"
| "body_error_message InvalidFormUtf8 = ''form data is not valid UTF-8''"
| "body_error_message EmptyFormKey = ''form field name must not be empty''"
| "body_error_message DuplicatePublicKey = ''duplicate public field name''"
| "body_error_message ReservedPublicKey = ''public body contains a reserved field name''"
| "body_error_message InvalidJson = ''invalid JSON request body''"
| "body_error_message DuplicateJsonKey = ''duplicate JSON object key''"
| "body_error_message JsonTopLevelNotObject = ''JSON request body must be an object''"
| "body_error_message JsonDepthExceeded = ''JSON request body exceeds the nesting limit''"

subsection \<open>Secret fields\<close>

definition name_rest_char :: "char \<Rightarrow> bool" where
  "name_rest_char c \<longleftrightarrow> is_ascii_alphanumeric c \<or> c = CHR ''_'' \<or> c = CHR ''-''"

definition is_valid_field_name :: "string \<Rightarrow> bool" where
  "is_valid_field_name name =
     (if name = [] \<or> MAX_FIELD_NAME_BYTES < length name then False
      else if \<not> (is_ascii_alphabetic (hd name) \<or> hd name = CHR ''_'') then False
      else list_all name_rest_char (tl name))"

definition secret_field_new :: "string \<Rightarrow> string \<Rightarrow> (request_body_error, secret_field) result" where
  "secret_field_new name v =
     (if \<not> is_valid_field_name name then Inl InvalidFieldName
      else if v = [] then Inl EmptySecret
      else if MAX_BODY_BYTES < length v then Inl SecretTooLarge
      else if CHR 0x00 \<in> set v then Inl SecretContainsNul
      else Inr \<lparr>sf_name = name, sf_value = v\<rparr>)"

fun validate_fields_from :: "secret_field list \<Rightarrow> secret_field list \<Rightarrow> (request_body_error, unit) result" where
  "validate_fields_from prev [] = Inr ()"
| "validate_fields_from prev (f # fs) =
     (if \<not> is_valid_field_name (sf_name f) then Inl InvalidFieldName
      else if sf_value f = [] then Inl EmptySecret
      else if MAX_BODY_BYTES < length (sf_value f) then Inl SecretTooLarge
      else if CHR 0x00 \<in> set (sf_value f) then Inl SecretContainsNul
      else if list_ex (\<lambda>p. eq_ignore_ascii_case (sf_name p) (sf_name f)) prev then Inl DuplicateInjectedField
      else validate_fields_from (prev @ [f]) fs)"

definition validate_fields :: "secret_field list \<Rightarrow> (request_body_error, unit) result" where
  "validate_fields fs = (if MAX_FIELDS < length fs then Inl TooManyFields else validate_fields_from [] fs)"

definition is_reserved_public_key :: "string \<Rightarrow> secret_field list \<Rightarrow> bool" where
  "is_reserved_public_key name fs \<longleftrightarrow>
     list_ex (\<lambda>r. eq_ignore_ascii_case name r) RESERVED_PUBLIC_KEYS \<or>
     list_ex (\<lambda>f. eq_ignore_ascii_case name (sf_name f)) fs"

subsection \<open>Reading a form\<close>

definition hex_value :: "char \<Rightarrow> nat option" where
  "hex_value c =
     (let b = byte c in
      if 48 \<le> b \<and> b \<le> 57 then Some (b - 48)
      else if 97 \<le> b \<and> b \<le> 102 then Some (b - 97 + 10)
      else if 65 \<le> b \<and> b \<le> 70 then Some (b - 65 + 10)
      else None)"

text \<open>The byte \<open>(high << 4) | low\<close> of two hexadecimal digits.\<close>

definition hex_byte :: "nat \<Rightarrow> nat \<Rightarrow> char" where
  "hex_byte high low = char_of (16 * high + low)"

fun decode_form_bytes :: "string \<Rightarrow> (request_body_error, string) result" where
  "decode_form_bytes [] = Inr []"
| "decode_form_bytes (c # cs) =
     (if c = CHR ''+'' then
        (case decode_form_bytes cs of Inl e \<Rightarrow> Inl e | Inr d \<Rightarrow> Inr (CHR '' '' # d))
      else if c = CHR ''%'' then
        (case cs of
           h # l # cs' \<Rightarrow>
             (case hex_value h of
                None \<Rightarrow> Inl InvalidFormEncoding
              | Some high \<Rightarrow>
                  (case hex_value l of
                     None \<Rightarrow> Inl InvalidFormEncoding
                   | Some low \<Rightarrow>
                       (case decode_form_bytes cs' of
                          Inl e \<Rightarrow> Inl e
                        | Inr d \<Rightarrow> Inr (hex_byte high low # d))))
         | _ \<Rightarrow> Inl InvalidFormEncoding)
      else
        (case decode_form_bytes cs of Inl e \<Rightarrow> Inl e | Inr d \<Rightarrow> Inr (c # d)))"

definition decode_form_component :: "string \<Rightarrow> (request_body_error, string) result" where
  "decode_form_component s =
     (case decode_form_bytes s of
        Inl e \<Rightarrow> Inl e
      | Inr d \<Rightarrow> if utf8_valid d then Inr d else Inl InvalidFormUtf8)"

definition split_pair :: "string \<Rightarrow> string \<times> string" where
  "split_pair seg = (case split_once (CHR ''='') seg of Some p \<Rightarrow> p | None \<Rightarrow> (seg, []))"

fun parse_form_segments ::
  "secret_field list \<Rightarrow> (string \<times> string) list \<Rightarrow> string list \<Rightarrow> (request_body_error, (string \<times> string) list) result" where
  "parse_form_segments fs pairs [] = Inr pairs"
| "parse_form_segments fs pairs (seg # segs) =
     (let (ek, ev) = split_pair seg in
      case decode_form_component ek of
        Inl e \<Rightarrow> Inl e
      | Inr key \<Rightarrow>
          if key = [] then Inl EmptyFormKey
          else if list_ex (\<lambda>(p, _). eq_ignore_ascii_case p key) pairs then Inl DuplicatePublicKey
          else if is_reserved_public_key key fs then Inl ReservedPublicKey
          else
            (case decode_form_component ev of
               Inl e \<Rightarrow> Inl e
             | Inr v \<Rightarrow> parse_form_segments fs (pairs @ [(key, v)]) segs))"

definition parse_form :: "string \<Rightarrow> secret_field list \<Rightarrow> (request_body_error, (string \<times> string) list) result" where
  "parse_form body fs =
     (if body = [] then Inr [] else parse_form_segments fs [] (split_on (CHR ''&'') body))"

subsection \<open>Writing a form\<close>

definition append_bounded :: "string \<Rightarrow> string \<Rightarrow> (request_body_error, string) result" where
  "append_bounded out v =
     (if MAX_BODY_BYTES < length out + length v then Inl OutputTooLarge else Inr (out @ v))"

definition is_unreserved :: "char \<Rightarrow> bool" where
  "is_unreserved c \<longleftrightarrow> is_ascii_alphanumeric c \<or> c \<in> {CHR ''-'', CHR ''.'', CHR ''_'', CHR ''~''}"

definition HEX_UPPER :: string where "HEX_UPPER = ''0123456789ABCDEF''"

definition percent_encoded :: "char \<Rightarrow> string" where
  "percent_encoded c = [CHR ''%'', HEX_UPPER ! (byte c div 16), HEX_UPPER ! (byte c mod 16)]"

fun append_form_component :: "string \<Rightarrow> string \<Rightarrow> (request_body_error, string) result" where
  "append_form_component out [] = Inr out"
| "append_form_component out (c # cs) =
     (if is_unreserved c then
        (if length out = MAX_BODY_BYTES then Inl OutputTooLarge
         else append_form_component (out @ [c]) cs)
      else
        (case append_bounded out (percent_encoded c) of
           Inl e \<Rightarrow> Inl e
         | Inr out' \<Rightarrow> append_form_component out' cs))"

definition append_form_pair :: "string \<Rightarrow> string \<Rightarrow> string \<Rightarrow> (request_body_error, string) result" where
  "append_form_pair out key v =
     (case (if out \<noteq> [] then append_bounded out ''&'' else Inr out) of
        Inl e \<Rightarrow> Inl e
      | Inr out1 \<Rightarrow>
          (case append_form_component out1 key of
             Inl e \<Rightarrow> Inl e
           | Inr out2 \<Rightarrow>
               (case append_bounded out2 ''='' of
                  Inl e \<Rightarrow> Inl e
                | Inr out3 \<Rightarrow> append_form_component out3 v)))"

fun append_form_pairs :: "string \<Rightarrow> (string \<times> string) list \<Rightarrow> (request_body_error, string) result" where
  "append_form_pairs out [] = Inr out"
| "append_form_pairs out ((k, v) # ps) =
     (case append_form_pair out k v of Inl e \<Rightarrow> Inl e | Inr out' \<Rightarrow> append_form_pairs out' ps)"

definition encode_form :: "string \<Rightarrow> secret_field list \<Rightarrow> (request_body_error, string) result" where
  "encode_form body fs =
     (case parse_form body fs of
        Inl e \<Rightarrow> Inl e
      | Inr pairs \<Rightarrow>
          (case append_form_pairs [] pairs of
             Inl e \<Rightarrow> Inl e
           | Inr out \<Rightarrow> append_form_pairs out (map (\<lambda>f. (sf_name f, sf_value f)) fs)))"

section \<open>What a form means\<close>

text \<open>
  The reference encoding of a component, of a pair and of a form, without the size limit,
  and the reading of a form by its receiver.
\<close>

definition form_byte :: "char \<Rightarrow> string" where
  "form_byte c = (if is_unreserved c then [c] else percent_encoded c)"

definition form_text :: "string \<Rightarrow> string" where
  "form_text s = concat (map form_byte s)"

definition form_segment :: "string \<times> string \<Rightarrow> string" where
  "form_segment p = form_text (fst p) @ CHR ''='' # form_text (snd p)"

fun form_join :: "(string \<times> string) list \<Rightarrow> string" where
  "form_join [] = []"
| "form_join [p] = form_segment p"
| "form_join (p # q # ps) = form_segment p @ CHR ''&'' # form_join (q # ps)"

fun result_list :: "('e, 'a) result list \<Rightarrow> ('e, 'a list) result" where
  "result_list [] = Inr []"
| "result_list (r # rs) =
     (case r of Inl e \<Rightarrow> Inl e | Inr x \<Rightarrow> (case result_list rs of Inl e \<Rightarrow> Inl e | Inr xs \<Rightarrow> Inr (x # xs)))"

definition form_pair :: "string \<Rightarrow> (request_body_error, string \<times> string) result" where
  "form_pair seg =
     (case decode_form_component (fst (split_pair seg)) of
        Inl e \<Rightarrow> Inl e
      | Inr k \<Rightarrow>
          (case decode_form_component (snd (split_pair seg)) of Inl e \<Rightarrow> Inl e | Inr v \<Rightarrow> Inr (k, v)))"

definition form_pairs :: "string \<Rightarrow> (request_body_error, (string \<times> string) list) result" where
  "form_pairs body = (if body = [] then Inr [] else result_list (map form_pair (split_on (CHR ''&'') body)))"

subsection \<open>Components\<close>

lemma hex_digit_facts:
  assumes "n < 16"
  shows "hex_value (HEX_UPPER ! n) = Some n" and "HEX_UPPER ! n \<notin> {CHR ''&'', CHR ''='', CHR ''+'', CHR ''%''}"
proof -
  have "list_all (\<lambda>n. hex_value (HEX_UPPER ! n) = Some n \<and>
          HEX_UPPER ! n \<notin> {CHR ''&'', CHR ''='', CHR ''+'', CHR ''%''}) [0..<16]"
    by code_simp
  moreover have "n \<in> set [0..<16]" using assms by simp
  ultimately show "hex_value (HEX_UPPER ! n) = Some n"
    and "HEX_UPPER ! n \<notin> {CHR ''&'', CHR ''='', CHR ''+'', CHR ''%''}"
    by (simp_all only: list_all_iff) blast+
qed

lemma nibbles [simp]: "byte c div 16 < 16" "byte c mod 16 < 16"
  using nat_of_char_less_256 [of c] by (simp_all only: less_mult_imp_div_less numeral_times_numeral)

lemma hex_byte_nibbles [simp]: "hex_byte (byte c div 16) (byte c mod 16) = c"
  by (simp add: hex_byte_def mult_div_mod_eq)

lemma percent_encoded_decodes:
  "decode_form_bytes (percent_encoded c @ s) =
     (case decode_form_bytes s of Inl e \<Rightarrow> Inl e | Inr d \<Rightarrow> Inr (c # d))"
  by (simp add: percent_encoded_def hex_digit_facts split: sum.split)

lemma unreserved_not_special:
  "is_unreserved c \<Longrightarrow> c \<notin> {CHR ''&'', CHR ''='', CHR ''+'', CHR ''%''}"
  by (auto simp: is_unreserved_def ascii_class_defs)

lemma form_byte_decodes:
  "decode_form_bytes (form_byte c @ s) =
     (case decode_form_bytes s of Inl e \<Rightarrow> Inl e | Inr d \<Rightarrow> Inr (c # d))"
  using unreserved_not_special [of c] by (auto simp: form_byte_def percent_encoded_decodes)

lemma decode_form_text: "decode_form_bytes (form_text s) = Inr s"
  by (induction s) (simp_all add: form_text_def form_byte_decodes)

lemma decode_form_component_text:
  "utf8_valid s \<Longrightarrow> decode_form_component (form_text s) = Inr s"
  by (simp add: decode_form_component_def decode_form_text)

lemma form_text_plain:
  "CHR ''&'' \<notin> set (form_text s)" "CHR ''='' \<notin> set (form_text s)"
proof -
  have "CHR ''&'' \<notin> set (form_byte c)" "CHR ''='' \<notin> set (form_byte c)" for c
    using unreserved_not_special [of c] hex_digit_facts(2) [of "byte c div 16"] hex_digit_facts(2) [of "byte c mod 16"]
    by (auto simp: form_byte_def percent_encoded_def)
  then show "CHR ''&'' \<notin> set (form_text s)" "CHR ''='' \<notin> set (form_text s)"
    by (auto simp: form_text_def)
qed

lemma form_text_empty [simp]: "form_text s = [] \<longleftrightarrow> s = []"
  by (cases s) (simp_all add: form_text_def form_byte_def percent_encoded_def)

subsection \<open>Whole forms\<close>

lemma split_pair_segment: "split_pair (form_segment p) = (form_text (fst p), form_text (snd p))"
  by (simp add: split_pair_def form_segment_def split_once_append form_text_plain)

lemma form_pair_segment:
  "utf8_valid (fst p) \<Longrightarrow> utf8_valid (snd p) \<Longrightarrow> form_pair (form_segment p) = Inr p"
  by (simp add: form_pair_def split_pair_segment decode_form_component_text)

lemma form_segment_plain: "CHR ''&'' \<notin> set (form_segment p)"
  by (simp add: form_segment_def form_text_plain)

lemma split_form_join: "ps \<noteq> [] \<Longrightarrow> split_on (CHR ''&'') (form_join ps) = map form_segment ps"
  by (induction ps rule: form_join.induct)
    (simp_all add: split_on_append split_on_no_sep form_segment_plain)

lemma form_join_empty: "form_join ps = [] \<longleftrightarrow> ps = []"
  by (cases ps rule: form_join.cases) (simp_all add: form_segment_def)

lemma form_pairs_join:
  assumes "\<And>p. p \<in> set ps \<Longrightarrow> utf8_valid (fst p) \<and> utf8_valid (snd p)"
  shows "form_pairs (form_join ps) = Inr ps"
proof (cases "ps = []")
  case False
  have "result_list (map (form_pair \<circ> form_segment) ps) = Inr ps"
    using assms by (induction ps) (simp_all add: form_pair_segment)
  then show ?thesis
    using False by (simp add: form_pairs_def form_join_empty split_form_join)
qed (simp add: form_pairs_def)

lemma form_join_prefix: "length (form_join ps) \<le> length (form_join (ps @ qs))"
  by (induction ps rule: form_join.induct) (cases qs; simp)+

lemma form_join_snoc:
  "form_join (ps @ [p]) = (if ps = [] then form_segment p else form_join ps @ CHR ''&'' # form_segment p)"
  by (induction ps rule: form_join.induct) simp_all

subsection \<open>The bounded writer\<close>

lemma append_form_component_exact:
  "length out \<le> MAX_BODY_BYTES \<Longrightarrow>
     append_form_component out s =
       (if length out + length (form_text s) \<le> MAX_BODY_BYTES then Inr (out @ form_text s) else Inl OutputTooLarge)"
proof (induction out s rule: append_form_component.induct)
  case (2 out c cs)
  then show ?case
    by (auto simp: form_text_def form_byte_def append_bounded_def percent_encoded_def)
qed (simp add: form_text_def)

lemma append_form_pair_exact:
  assumes "length out \<le> MAX_BODY_BYTES"
  shows "append_form_pair out k v =
    (let out' = (if out = [] then [] else out @ ''&'') @ form_segment (k, v) in
     if length out' \<le> MAX_BODY_BYTES then Inr out' else Inl OutputTooLarge)"
  using assms
  by (auto simp: append_form_pair_def append_bounded_def append_form_component_exact form_segment_def Let_def)

lemma append_form_pairs_exact:
  "length (form_join qs) \<le> MAX_BODY_BYTES \<Longrightarrow>
     append_form_pairs (form_join qs) ps =
       (if length (form_join (qs @ ps)) \<le> MAX_BODY_BYTES then Inr (form_join (qs @ ps)) else Inl OutputTooLarge)"
proof (induction ps arbitrary: qs)
  case (Cons p ps)
  obtain k v where p: "p = (k, v)" by (cases p)
  have step: "append_form_pair (form_join qs) k v =
      (if length (form_join (qs @ [p])) \<le> MAX_BODY_BYTES then Inr (form_join (qs @ [p])) else Inl OutputTooLarge)"
    using Cons.prems by (simp add: append_form_pair_exact form_join_snoc form_join_empty p)
  have grow: "length (form_join (qs @ [p])) \<le> length (form_join ((qs @ [p]) @ ps))"
    by (rule form_join_prefix)
  show ?case
    using Cons.IH [of "qs @ [p]"] step grow by (simp add: p)
qed simp

subsection \<open>The public pairs\<close>

definition ci_distinct :: "string list \<Rightarrow> bool" where
  "ci_distinct ks \<longleftrightarrow> distinct (map (map to_ascii_lowercase) ks)"

definition fields_pairs :: "secret_field list \<Rightarrow> (string \<times> string) list" where
  "fields_pairs = map (\<lambda>f. (sf_name f, sf_value f))"

definition public_pairs_ok :: "secret_field list \<Rightarrow> (string \<times> string) list \<Rightarrow> bool" where
  "public_pairs_ok fs ps \<longleftrightarrow>
     ci_distinct (map fst ps) \<and>
     (\<forall>p \<in> set ps. fst p \<noteq> [] \<and> utf8_valid (fst p) \<and> utf8_valid (snd p) \<and> \<not> is_reserved_public_key (fst p) fs)"

lemma decode_form_component_utf8: "decode_form_component s = Inr d \<Longrightarrow> utf8_valid d"
  by (auto simp: decode_form_component_def split: sum.splits if_splits)

lemma ci_distinct_snoc:
  "ci_distinct (ks @ [k]) \<longleftrightarrow> ci_distinct ks \<and> \<not> list_ex (\<lambda>p. eq_ignore_ascii_case p k) ks"
  by (auto simp: ci_distinct_def eq_ignore_ascii_case_def list_ex_iff image_iff)

lemma ci_distinct_append:
  "ci_distinct (as @ bs) \<longleftrightarrow>
     ci_distinct as \<and> ci_distinct bs \<and> (\<forall>a \<in> set as. \<not> list_ex (\<lambda>b. eq_ignore_ascii_case a b) bs)"
  by (auto simp: ci_distinct_def eq_ignore_ascii_case_def list_ex_iff)

lemma parse_form_segments_ok:
  "parse_form_segments fs pairs segs = Inr ps \<Longrightarrow> public_pairs_ok fs pairs \<Longrightarrow>
     public_pairs_ok fs ps \<and> (\<exists>qs. ps = pairs @ qs \<and> result_list (map form_pair segs) = Inr qs)"
proof (induction fs pairs segs rule: parse_form_segments.induct)
  case (2 fs pairs seg segs)
  from 2(2) obtain key v where kv: "decode_form_component (fst (split_pair seg)) = Inr key"
      "decode_form_component (snd (split_pair seg)) = Inr v" "key \<noteq> []"
      "\<not> list_ex (\<lambda>(p, _). eq_ignore_ascii_case p key) pairs" "\<not> is_reserved_public_key key fs"
    and rest: "parse_form_segments fs (pairs @ [(key, v)]) segs = Inr ps"
    by (auto simp: Let_def split: prod.splits sum.splits if_splits)
  have "public_pairs_ok fs (pairs @ [(key, v)])"
    using 2(3) kv
    by (auto simp: public_pairs_ok_def ci_distinct_snoc list_ex_iff decode_form_component_utf8)
  then obtain qs where "public_pairs_ok fs ps" "ps = (pairs @ [(key, v)]) @ qs" "result_list (map form_pair segs) = Inr qs"
    using 2(1) [OF refl prod.collapse kv(1) kv(3,4,5,2) rest] by blast
  then show ?case
    using kv(1,2) by (auto simp: form_pair_def [of seg])
qed simp

lemma parse_form_ok:
  "parse_form body fs = Inr ps \<Longrightarrow> public_pairs_ok fs ps \<and> form_pairs body = Inr ps"
  using parse_form_segments_ok [of fs "[]" "split_on (CHR ''&'') body" ps]
  by (auto simp: parse_form_def form_pairs_def public_pairs_ok_def ci_distinct_def split: if_splits)

subsection \<open>Validated fields\<close>

definition fields_ok :: "secret_field list \<Rightarrow> bool" where
  "fields_ok fs \<longleftrightarrow>
     ci_distinct (map sf_name fs) \<and>
     (\<forall>f \<in> set fs. is_valid_field_name (sf_name f) \<and> sf_value f \<noteq> [] \<and>
        length (sf_value f) \<le> MAX_BODY_BYTES \<and> CHR 0x00 \<notin> set (sf_value f))"

lemma validate_fields_from_exact:
  "fields_ok prev \<Longrightarrow> validate_fields_from prev fs = Inr () \<longleftrightarrow> fields_ok (prev @ fs)"
proof (induction prev fs rule: validate_fields_from.induct)
  case (2 prev f fs)
  have snoc: "fields_ok (prev @ [f]) \<longleftrightarrow>
      fields_ok prev \<and> is_valid_field_name (sf_name f) \<and> sf_value f \<noteq> [] \<and>
      length (sf_value f) \<le> MAX_BODY_BYTES \<and> CHR 0x00 \<notin> set (sf_value f) \<and>
      \<not> list_ex (\<lambda>p. eq_ignore_ascii_case (sf_name p) (sf_name f)) prev"
    by (auto simp: fields_ok_def ci_distinct_snoc list_ex_iff)
  have mono: "fields_ok (prev @ f # fs) \<Longrightarrow> fields_ok (prev @ [f])"
    by (auto simp: fields_ok_def ci_distinct_def)
  show ?case
  proof (cases "fields_ok (prev @ [f])")
    case True
    then show ?thesis
      using 2 snoc by simp
  next
    case False
    then show ?thesis
      using 2(2) snoc mono by auto
  qed
qed simp

lemma validate_fields_exact: "validate_fields fs = Inr () \<longleftrightarrow> length fs \<le> MAX_FIELDS \<and> fields_ok fs"
  using validate_fields_from_exact [of "[]" fs]
  by (auto simp: validate_fields_def fields_ok_def ci_distinct_def)

lemma secret_field_new_valid: "secret_field_new n v = Inr f \<Longrightarrow> fields_ok [f] \<and> sf_name f = n \<and> sf_value f = v"
  by (auto simp: secret_field_new_def fields_ok_def ci_distinct_def split: if_splits)

lemma name_char_ascii: "name_rest_char c \<Longrightarrow> is_ascii c"
  by (auto simp: name_rest_char_def ascii_class_defs)

lemma valid_field_name_chars: "is_valid_field_name n \<Longrightarrow> n \<noteq> [] \<and> list_all name_rest_char n"
  by (cases n) (auto simp: is_valid_field_name_def name_rest_char_def is_ascii_alphanumeric_def split: if_splits)

lemma valid_field_name_utf8: "is_valid_field_name n \<Longrightarrow> utf8_valid n"
  using valid_field_name_chars [of n] by (auto simp: list_all_iff name_char_ascii intro: utf8_valid_ascii)

lemma public_fields_ci_distinct:
  assumes "public_pairs_ok fs ps" "fields_ok fs"
  shows "ci_distinct (map fst (ps @ fields_pairs fs))"
proof -
  have "map fst (fields_pairs fs) = map sf_name fs"
    by (simp add: fields_pairs_def)
  then show ?thesis
    using assms
    by (auto simp: public_pairs_ok_def fields_ok_def ci_distinct_append is_reserved_public_key_def list_ex_iff)
qed

lemma encode_form_exact:
  "encode_form body fs =
     (case parse_form body fs of
        Inl e \<Rightarrow> Inl e
      | Inr ps \<Rightarrow>
          if length (form_join (ps @ fields_pairs fs)) \<le> MAX_BODY_BYTES
          then Inr (form_join (ps @ fields_pairs fs)) else Inl OutputTooLarge)"
proof (cases "parse_form body fs")
  case (Inr ps)
  have first: "append_form_pairs [] ps =
      (if length (form_join ps) \<le> MAX_BODY_BYTES then Inr (form_join ps) else Inl OutputTooLarge)"
    using append_form_pairs_exact [of "[]" ps] by simp
  show ?thesis
    using form_join_prefix [of ps "fields_pairs fs"] append_form_pairs_exact [of ps "fields_pairs fs"]
    by (auto simp: encode_form_def Inr first fields_pairs_def)
qed (simp add: encode_form_def)

lemma encode_form_reads_back:
  assumes "encode_form body fs = Inr out" and "fields_ok fs" and "\<And>f. f \<in> set fs \<Longrightarrow> utf8_valid (sf_value f)"
  obtains ps where "form_pairs body = Inr ps" "form_pairs out = Inr (ps @ fields_pairs fs)"
    "public_pairs_ok fs ps" "length out \<le> MAX_BODY_BYTES"
proof -
  obtain ps where ps: "parse_form body fs = Inr ps" and out: "out = form_join (ps @ fields_pairs fs)"
    and len: "length out \<le> MAX_BODY_BYTES"
    using assms(1) by (auto simp: encode_form_exact split: sum.splits if_splits)
  have "form_pairs out = Inr (ps @ fields_pairs fs)"
    unfolding out using parse_form_ok [OF ps] assms(2,3)
    by (intro form_pairs_join) (auto simp: public_pairs_ok_def fields_pairs_def fields_ok_def valid_field_name_utf8)
  then show ?thesis
    using that parse_form_ok [OF ps] len by blast
qed

end
