(* ===== verification/Request_Json.thy ===== *)
theory Request_Json
  imports Request_Form "HOL-Library.Sublist"
begin

section \<open>Request bodies with injected secrets: JSON (\<open>auth/request_body.rs\<close>)\<close>

text \<open>
  The strict JSON parser of the public body, the bounded JSON writer and
  \<open>encode_injected_body\<close>. The parser's state is the rest of the input from the cursor on;
  \<open>slice_token\<close> is \<open>input.get(start..cursor)\<close>.

  Two functions of \<open>serde_json\<close> are parameters: \<open>unquote\<close> is \<open>from_str::<String>\<close> on a
  token and \<open>quote\<close> is \<open>to_writer\<close> on a string, as the sequence of the byte slices it
  writes.

  The recursion of the parser descends at most \<open>MAX_JSON_DEPTH\<close> levels. The loops over the
  entries of an object and the values of an array carry fuel, one unit per round;
  \<open>None\<close> is running out of it, and \<open>parse_levels_total\<close> shows that the length of the input is
  enough.
\<close>

definition MAX_JSON_DEPTH :: nat where "MAX_JSON_DEPTH = 8"

datatype json_public_value =
    Scalar string
  | Array "json_public_value list"
  | Object "(string \<times> json_public_value) list"

subsection \<open>Tokens\<close>

definition peek_byte :: "string \<Rightarrow> char option" where
  "peek_byte s = (case s of [] \<Rightarrow> None | c # _ \<Rightarrow> Some c)"

definition is_json_space :: "char \<Rightarrow> bool" where
  "is_json_space c \<longleftrightarrow> c \<in> {CHR '' '', CHR 0x09, CHR 0x0D, CHR 0x0A}"

definition skip_whitespace :: "string \<Rightarrow> string" where
  "skip_whitespace = dropWhile is_json_space"

definition at_boundary :: "string \<Rightarrow> bool" where
  "at_boundary s = (case s of [] \<Rightarrow> True | c # _ \<Rightarrow> \<not> is_cont c)"

definition slice_token :: "string \<Rightarrow> string \<Rightarrow> (request_body_error, string \<times> string) result" where
  "slice_token start rest =
     (if at_boundary start \<and> at_boundary rest
      then Inr (take (length start - length rest) start, rest) else Inl InvalidJson)"

text \<open>The loop of \<open>parse_string_token\<close>: the input after the closing quote.\<close>

fun scan_string :: "string \<Rightarrow> string option" where
  "scan_string [] = None"
| "scan_string (c # cs) =
     (if c = CHR 0x22 then Some cs
      else if c = CHR 0x5C then (case cs of [] \<Rightarrow> None | _ # cs' \<Rightarrow> scan_string cs')
      else if byte c \<le> 0x1F then None
      else scan_string cs)"

definition parse_string_token ::
  "(string \<Rightarrow> string option) \<Rightarrow> string \<Rightarrow> (request_body_error, string \<times> string) result" where
  "parse_string_token unquote s =
     (if peek_byte s \<noteq> Some (CHR 0x22) then Inl InvalidJson
      else
        (case scan_string (tl s) of
           None \<Rightarrow> Inl InvalidJson
         | Some rest \<Rightarrow>
             (case slice_token s rest of
                Inl e \<Rightarrow> Inl e
              | Inr (token, rest') \<Rightarrow>
                  (case unquote token of None \<Rightarrow> Inl InvalidJson | Some _ \<Rightarrow> Inr (token, rest')))))"

definition parse_literal :: "string \<Rightarrow> string \<Rightarrow> (request_body_error, string \<times> string) result" where
  "parse_literal expected s =
     (if \<not> (at_boundary s \<and> take (length expected) s = expected) then Inl InvalidJson
      else slice_token s (drop (length expected) s))"

definition skip_digits :: "string \<Rightarrow> string" where
  "skip_digits = dropWhile is_ascii_digit"

definition peek_digit :: "string \<Rightarrow> bool" where
  "peek_digit s = (case peek_byte s of Some c \<Rightarrow> is_ascii_digit c | None \<Rightarrow> False)"

definition number_integer :: "string \<Rightarrow> string option" where
  "number_integer s =
     (let s0 = (if peek_byte s = Some (CHR ''-'') then tl s else s) in
      if peek_byte s0 = Some (CHR ''0'') then (if peek_digit (tl s0) then None else Some (tl s0))
      else if peek_digit s0 then Some (skip_digits (tl s0))
      else None)"

definition number_fraction :: "string \<Rightarrow> string option" where
  "number_fraction s =
     (if peek_byte s = Some (CHR ''.'') then
        (let s1 = skip_digits (tl s) in if length s1 = length (tl s) then None else Some s1)
      else Some s)"

definition number_exponent :: "string \<Rightarrow> string option" where
  "number_exponent s =
     (if peek_byte s \<in> {Some (CHR ''e''), Some (CHR ''E'')} then
        (let s1 = tl s;
             s2 = (if peek_byte s1 \<in> {Some (CHR ''+''), Some (CHR ''-'')} then tl s1 else s1);
             s3 = skip_digits s2 in
         if length s3 = length s2 then None else Some s3)
      else Some s)"

definition parse_number_token :: "string \<Rightarrow> (request_body_error, string \<times> string) result" where
  "parse_number_token s =
     (case number_integer s of
        None \<Rightarrow> Inl InvalidJson
      | Some s1 \<Rightarrow>
          (case number_fraction s1 of
             None \<Rightarrow> Inl InvalidJson
           | Some s2 \<Rightarrow>
               (case number_exponent s2 of
                  None \<Rightarrow> Inl InvalidJson
                | Some s3 \<Rightarrow> slice_token s s3)))"

subsection \<open>The parser\<close>

fun scalar :: "(request_body_error, string \<times> string) result \<Rightarrow> (request_body_error, json_public_value \<times> string) result" where
  "scalar (Inl e) = Inl e"
| "scalar (Inr (token, rest)) = Inr (Scalar token, rest)"

text \<open>
  \<open>parse_object\<close> and \<open>parse_array\<close> with the parser \<open>pv\<close> of the values one level deeper.
  Their loops carry fuel, one unit per round; \<open>None\<close> is running out of it.
\<close>

type_synonym value_parser = "string \<Rightarrow> (request_body_error, json_public_value \<times> string) result option"

fun parse_object_entries ::
  "(string \<Rightarrow> string option) \<Rightarrow> value_parser \<Rightarrow> nat \<Rightarrow> (string \<times> json_public_value) list \<Rightarrow> value_parser" where
  "parse_object_entries unquote pv 0 entries s = None"
| "parse_object_entries unquote pv (Suc n) entries s =
     (case parse_string_token unquote s of
        Inl e \<Rightarrow> Some (Inl e)
      | Inr (raw_key, s1) \<Rightarrow>
          (case unquote raw_key of
             None \<Rightarrow> Some (Inl InvalidJson)
           | Some key \<Rightarrow>
               if key \<in> set (map fst entries) then Some (Inl DuplicateJsonKey)
               else if peek_byte (skip_whitespace s1) \<noteq> Some (CHR '':'') then Some (Inl InvalidJson)
               else
                 (case pv (skip_whitespace (tl (skip_whitespace s1))) of
                    None \<Rightarrow> None
                  | Some (Inl e) \<Rightarrow> Some (Inl e)
                  | Some (Inr (v, s2)) \<Rightarrow>
                      (let s3 = skip_whitespace s2; entries' = entries @ [(key, v)] in
                       if peek_byte s3 = Some (CHR '','') then
                         parse_object_entries unquote pv n entries' (skip_whitespace (tl s3))
                       else if peek_byte s3 = Some (CHR ''}'') then Some (Inr (Object entries', tl s3))
                       else Some (Inl InvalidJson)))))"

fun parse_array_values :: "value_parser \<Rightarrow> nat \<Rightarrow> json_public_value list \<Rightarrow> value_parser" where
  "parse_array_values pv 0 vs s = None"
| "parse_array_values pv (Suc n) vs s =
     (case pv s of
        None \<Rightarrow> None
      | Some (Inl e) \<Rightarrow> Some (Inl e)
      | Some (Inr (v, s2)) \<Rightarrow>
          (let s3 = skip_whitespace s2; vs' = vs @ [v] in
           if peek_byte s3 = Some (CHR '','') then
             parse_array_values pv n vs' (skip_whitespace (tl s3))
           else if peek_byte s3 = Some (CHR '']'') then Some (Inr (Array vs', tl s3))
           else Some (Inl InvalidJson)))"

definition parse_object :: "(string \<Rightarrow> string option) \<Rightarrow> value_parser \<Rightarrow> nat \<Rightarrow> value_parser" where
  "parse_object unquote pv depth s =
     (if MAX_JSON_DEPTH \<le> depth then Some (Inl JsonDepthExceeded)
      else
        (let s1 = skip_whitespace (tl s) in
         if peek_byte s1 = Some (CHR ''}'') then Some (Inr (Object [], tl s1))
         else parse_object_entries unquote pv (length s) [] s1))"

definition parse_array :: "value_parser \<Rightarrow> nat \<Rightarrow> value_parser" where
  "parse_array pv depth s =
     (if MAX_JSON_DEPTH \<le> depth then Some (Inl JsonDepthExceeded)
      else
        (let s1 = skip_whitespace (tl s) in
         if peek_byte s1 = Some (CHR '']'') then Some (Inr (Array [], tl s1))
         else parse_array_values pv (length s) [] s1))"

definition parse_value_with :: "(string \<Rightarrow> string option) \<Rightarrow> value_parser \<Rightarrow> nat \<Rightarrow> value_parser" where
  "parse_value_with unquote pv depth s =
     (case peek_byte s of
        None \<Rightarrow> Some (Inl InvalidJson)
      | Some c \<Rightarrow>
          if c = CHR ''{'' then parse_object unquote pv depth s
          else if c = CHR ''['' then parse_array pv depth s
          else if c = CHR 0x22 then Some (scalar (parse_string_token unquote s))
          else if c = CHR ''t'' then Some (scalar (parse_literal ''true'' s))
          else if c = CHR ''f'' then Some (scalar (parse_literal ''false'' s))
          else if c = CHR ''n'' then Some (scalar (parse_literal ''null'' s))
          else if c = CHR ''-'' \<or> is_ascii_digit c then Some (scalar (parse_number_token s))
          else Some (Inl InvalidJson))"

text \<open>
  \<open>parse_levels unquote k\<close> is \<open>parse_value\<close> at depth \<open>MAX_JSON_DEPTH - k\<close>. With no level
  left the parser of nested values is never called.
\<close>

fun parse_levels :: "(string \<Rightarrow> string option) \<Rightarrow> nat \<Rightarrow> value_parser" where
  "parse_levels unquote 0 = parse_value_with unquote (\<lambda>_. None) MAX_JSON_DEPTH"
| "parse_levels unquote (Suc k) = parse_value_with unquote (parse_levels unquote k) (MAX_JSON_DEPTH - Suc k)"

definition parse_value :: "(string \<Rightarrow> string option) \<Rightarrow> nat \<Rightarrow> value_parser" where
  "parse_value unquote depth = parse_levels unquote (MAX_JSON_DEPTH - depth)"

definition parse_document :: "(string \<Rightarrow> string option) \<Rightarrow> string \<Rightarrow> (request_body_error, json_public_value) result option" where
  "parse_document unquote input =
     (case parse_value unquote 0 (skip_whitespace input) of
        None \<Rightarrow> None
      | Some (Inl e) \<Rightarrow> Some (Inl e)
      | Some (Inr (v, rest)) \<Rightarrow> if skip_whitespace rest \<noteq> [] then Some (Inl InvalidJson) else Some (Inr v))"

subsection \<open>The writer\<close>

record bounded_json_writer =
  encoded :: string
  exceeded :: bool

definition writer_write :: "string \<Rightarrow> (bounded_json_writer, unit, nat) eff" where
  "writer_write bytes w =
     (if MAX_BODY_BYTES < length (encoded w) + length bytes then (Inl (), w\<lparr>exceeded := True\<rparr>)
      else (Inr (length bytes), w\<lparr>encoded := encoded w @ bytes\<rparr>))"

text \<open>\<open>Write::write_all\<close>; a successful \<open>write\<close> here always takes the whole slice.\<close>

definition write_all :: "string \<Rightarrow> (bounded_json_writer, unit, unit) eff" where
  "write_all bytes w =
     (if bytes = [] then (Inr (), w)
      else (case writer_write bytes w of (Inl e, w') \<Rightarrow> (Inl e, w') | (Inr _, w') \<Rightarrow> (Inr (), w')))"

fun to_writer :: "string list \<Rightarrow> (bounded_json_writer, unit, unit) eff" where
  "to_writer [] w = (Inr (), w)"
| "to_writer (chunk # chunks) w =
     (case write_all chunk w of (Inl e, w') \<Rightarrow> (Inl e, w') | (Inr _, w') \<Rightarrow> to_writer chunks w')"

definition writer_failure :: "bounded_json_writer \<Rightarrow> request_body_error" where
  "writer_failure w = (if exceeded w then OutputTooLarge else InvalidJson)"

definition write_json_bytes :: "string \<Rightarrow> (bounded_json_writer, request_body_error, unit) eff" where
  "write_json_bytes bytes w =
     (case write_all bytes w of (Inl _, w') \<Rightarrow> (Inl (writer_failure w'), w') | (Inr u, w') \<Rightarrow> (Inr u, w'))"

definition write_json_string ::
  "(string \<Rightarrow> string list) \<Rightarrow> string \<Rightarrow> (bounded_json_writer, request_body_error, unit) eff" where
  "write_json_string quote v w =
     (case to_writer (quote v) w of (Inl _, w') \<Rightarrow> (Inl (writer_failure w'), w') | (Inr u, w') \<Rightarrow> (Inr u, w'))"

definition write_separator :: "bool \<Rightarrow> (bounded_json_writer, request_body_error, unit) eff" where
  "write_separator first = (if \<not> first then write_json_bytes '','' else ret ())"

fun write_fields ::
  "(string \<Rightarrow> string list) \<Rightarrow> bool \<Rightarrow> secret_field list \<Rightarrow> (bounded_json_writer, request_body_error, unit) eff" where
  "write_fields quote first [] = ret ()"
| "write_fields quote first (f # fs) =
     and_then (write_separator first) (\<lambda>_.
     and_then (write_json_string quote (sf_name f)) (\<lambda>_.
     and_then (write_json_bytes '':'') (\<lambda>_.
     and_then (write_json_string quote (sf_value f)) (\<lambda>_.
     write_fields quote False fs))))"

fun write_json_value ::
    "(string \<Rightarrow> string list) \<Rightarrow> json_public_value \<Rightarrow> (bounded_json_writer, request_body_error, unit) eff"
  and write_values ::
    "(string \<Rightarrow> string list) \<Rightarrow> bool \<Rightarrow> json_public_value list \<Rightarrow> (bounded_json_writer, request_body_error, unit) eff"
  and write_json_object ::
    "(string \<Rightarrow> string list) \<Rightarrow> (string \<times> json_public_value) list \<Rightarrow> secret_field list \<Rightarrow>
     (bounded_json_writer, request_body_error, unit) eff"
  and write_entries ::
    "(string \<Rightarrow> string list) \<Rightarrow> bool \<Rightarrow> (string \<times> json_public_value) list \<Rightarrow>
     (bounded_json_writer, request_body_error, bool) eff" where
  "write_json_value quote (Scalar token) = write_json_bytes token"
| "write_json_value quote (Array vs) =
     and_then (write_json_bytes ''['') (\<lambda>_. and_then (write_values quote True vs) (\<lambda>_. write_json_bytes '']''))"
| "write_json_value quote (Object entries) = write_json_object quote entries []"
| "write_values quote first [] = ret ()"
| "write_values quote first (v # vs) =
     and_then (write_separator first) (\<lambda>_.
     and_then (write_json_value quote v) (\<lambda>_.
     write_values quote False vs))"
| "write_json_object quote public fs =
     and_then (write_json_bytes ''{'') (\<lambda>_.
     and_then (write_entries quote True public) (\<lambda>first.
     and_then (write_fields quote first fs) (\<lambda>_.
     write_json_bytes ''}'')))"
| "write_entries quote first [] = ret first"
| "write_entries quote first ((key, v) # es) =
     and_then (write_separator first) (\<lambda>_.
     and_then (write_json_string quote key) (\<lambda>_.
     and_then (write_json_bytes '':'') (\<lambda>_.
     and_then (write_json_value quote v) (\<lambda>_.
     write_entries quote False es))))"

subsection \<open>Encoding a body\<close>

fun validate_json_keys ::
    "secret_field list \<Rightarrow> json_public_value \<Rightarrow> (request_body_error, unit) result"
  and validate_json_entries ::
    "secret_field list \<Rightarrow> (string \<times> json_public_value) list \<Rightarrow> (request_body_error, unit) result"
  and validate_json_values ::
    "secret_field list \<Rightarrow> json_public_value list \<Rightarrow> (request_body_error, unit) result" where
  "validate_json_keys fs (Object entries) = validate_json_entries fs entries"
| "validate_json_keys fs (Array vs) = validate_json_values fs vs"
| "validate_json_keys fs (Scalar _) = Inr ()"
| "validate_json_entries fs [] = Inr ()"
| "validate_json_entries fs ((key, nested) # es) =
     (if is_reserved_public_key key fs then Inl ReservedPublicKey
      else (case validate_json_keys fs nested of Inl e \<Rightarrow> Inl e | Inr _ \<Rightarrow> validate_json_entries fs es))"
| "validate_json_values fs [] = Inr ()"
| "validate_json_values fs (v # vs) =
     (case validate_json_keys fs v of Inl e \<Rightarrow> Inl e | Inr _ \<Rightarrow> validate_json_values fs vs)"

definition public_json :: "(string \<Rightarrow> string option) \<Rightarrow> string \<Rightarrow> (request_body_error, json_public_value) result option" where
  "public_json unquote body = (if body = [] then Some (Inr (Object [])) else parse_document unquote body)"

definition encode_json_object ::
  "(string \<Rightarrow> string option) \<Rightarrow> (string \<Rightarrow> string list) \<Rightarrow> string \<Rightarrow> secret_field list \<Rightarrow>
   (request_body_error, string) result option" where
  "encode_json_object unquote quote body fs =
     (case public_json unquote body of
        None \<Rightarrow> None
      | Some (Inl e) \<Rightarrow> Some (Inl e)
      | Some (Inr (Object public)) \<Rightarrow>
          (case validate_json_keys fs (Object public) of
             Inl e \<Rightarrow> Some (Inl e)
           | Inr _ \<Rightarrow>
               (case write_json_object quote public fs \<lparr>encoded = [], exceeded = False\<rparr> of
                  (res, w) \<Rightarrow>
                    if exceeded w then Some (Inl OutputTooLarge)
                    else
                      (case res of
                         Inl e \<Rightarrow> Some (Inl e)
                       | Inr _ \<Rightarrow>
                           if utf8_valid (encoded w) then Some (Inr (encoded w)) else Some (Inl InvalidJson))))
      | Some (Inr _) \<Rightarrow> Some (Inl JsonTopLevelNotObject))"

definition encode_injected_body ::
  "(string \<Rightarrow> string option) \<Rightarrow> (string \<Rightarrow> string list) \<Rightarrow> string \<Rightarrow> request_body_encoding \<Rightarrow> secret_field list \<Rightarrow>
   (request_body_error, string) result option" where
  "encode_injected_body unquote quote body encoding fs =
     (if MAX_BODY_BYTES < length body then Some (Inl InputTooLarge)
      else
        (case validate_fields fs of
           Inl e \<Rightarrow> Some (Inl e)
         | Inr _ \<Rightarrow>
             (case encoding of
                Form \<Rightarrow> Some (encode_form body fs)
              | JsonObject \<Rightarrow> encode_json_object unquote quote body fs)))"

section \<open>Tokens\<close>

text \<open>
  A token parser takes a prefix of the input. Put in front of another text that does not
  continue it, the same token is read again.
\<close>

definition delim :: "string \<Rightarrow> bool" where
  "delim r = (case r of [] \<Rightarrow> True | c # _ \<Rightarrow> c \<in> {CHR '','', CHR '']'', CHR ''}''})"

lemma delim_facts:
  assumes "delim r"
  shows "at_boundary r" "\<not> peek_digit r" "peek_byte r \<notin> {Some (CHR ''.''), Some (CHR ''e''), Some (CHR ''E'')}"
    "skip_whitespace r = r"
  using assms
  by (auto simp: delim_def at_boundary_def peek_digit_def peek_byte_def is_cont_def ascii_class_defs
      skip_whitespace_def is_json_space_def split: list.splits)

lemma skip_whitespace_suffix: "suffix (skip_whitespace s) s"
  by (simp add: skip_whitespace_def suffix_dropWhile)

lemma skip_whitespace_length: "length (skip_whitespace s) \<le> length s"
  by (simp add: skip_whitespace_suffix suffix_length_le)

lemma peek_Some: "peek_byte s = Some c \<longleftrightarrow> (\<exists>r. s = c # r)"
  by (auto simp: peek_byte_def split: list.splits)

lemma scan_string_prefix:
  "scan_string s = Some r \<Longrightarrow> \<exists>p. s = p @ r \<and> p \<noteq> [] \<and> (\<forall>r'. scan_string (p @ r') = Some r')"
proof (induction s rule: scan_string.induct)
  case (2 c cs)
  show ?case
  proof (cases "c = CHR 0x22")
    case True
    then show ?thesis using 2(3) by (auto intro!: exI [of _ "[c]"])
  next
    case quote: False
    show ?thesis
    proof (cases "c = CHR 0x5C")
      case True
      then obtain d ds where cs: "cs = d # ds" and "scan_string ds = Some r"
        using 2(3) quote by (auto split: list.splits)
      then obtain p where "ds = p @ r" "\<forall>r'. scan_string (p @ r') = Some r'"
        using 2(1) [OF quote True cs] by auto
      then show ?thesis
        using True cs by (intro exI [of _ "c # d # p"]) simp
    next
      case False
      then have "\<not> byte c \<le> 0x1F" "scan_string cs = Some r"
        using 2(3) quote by (auto split: if_splits)
      then obtain p where "cs = p @ r" "\<forall>r'. scan_string (p @ r') = Some r'"
        using 2(2) [OF quote False] by auto
      then show ?thesis
        using quote False \<open>\<not> byte c \<le> 0x1F\<close> by (intro exI [of _ "c # p"]) simp
    qed
  qed
qed simp

lemma slice_token_prefix:
  "slice_token (t @ r) r = Inr (t', r') \<longleftrightarrow> at_boundary (t @ r) \<and> at_boundary r \<and> t' = t \<and> r' = r"
  by (auto simp: slice_token_def)

lemma at_boundary_prefix: "at_boundary (t @ r) \<Longrightarrow> t \<noteq> [] \<Longrightarrow> at_boundary (t @ r')"
  by (cases t) (auto simp: at_boundary_def)

lemma parse_string_token_prefix:
  assumes "parse_string_token unquote s = Inr (t, r)"
  shows "s = t @ r" and "t \<noteq> []" and "hd t = CHR 0x22" and "unquote t \<noteq> None"
    and "at_boundary r' \<Longrightarrow> parse_string_token unquote (t @ r') = Inr (t, r')"
proof -
  from assms obtain s' rest where s: "s = CHR 0x22 # s'" and scan: "scan_string s' = Some rest"
    and slice: "slice_token s rest = Inr (t, r)" and u: "unquote t \<noteq> None"
    by (auto simp: parse_string_token_def peek_Some split: if_splits option.splits sum.splits)
  obtain p where p: "s' = p @ rest" "\<And>r'. scan_string (p @ r') = Some r'"
    using scan_string_prefix [OF scan] by auto
  have s_eq: "s = (CHR 0x22 # p) @ rest"
    using s p(1) by simp
  have t: "t = CHR 0x22 # p" "r = rest"
    using slice unfolding s_eq slice_token_prefix by auto
  show "s = t @ r" "t \<noteq> []" "hd t = CHR 0x22" "unquote t \<noteq> None"
    using s_eq t u by simp_all
  assume r': "at_boundary r'"
  have "at_boundary (t @ r')"
    using t by (simp add: at_boundary_def is_cont_def)
  then have "slice_token (t @ r') r' = Inr (t, r')"
    using r' by (simp add: slice_token_prefix)
  then show "parse_string_token unquote (t @ r') = Inr (t, r')"
    using p(2) u by (auto simp: parse_string_token_def t peek_byte_def)
qed

lemma parse_literal_prefix:
  assumes "parse_literal lit s = Inr (t, r)" and "lit \<noteq> []"
  shows "s = t @ r" and "t = lit"
    and "at_boundary r' \<Longrightarrow> parse_literal lit (t @ r') = Inr (t, r')"
proof -
  have lit: "take (length lit) s = lit" and slice: "slice_token s (drop (length lit) s) = Inr (t, r)"
    and bound: "at_boundary s"
    using assms(1) by (auto simp: parse_literal_def split: if_splits)
  have s: "lit @ drop (length lit) s = s"
    using lit by (metis append_take_drop_id)
  have "t = lit \<and> r = drop (length lit) s"
    using slice slice_token_prefix [of lit "drop (length lit) s" t r] unfolding s by blast
  then show "s = t @ r" "t = lit"
    using s by simp_all
  then show "at_boundary r' \<Longrightarrow> parse_literal lit (t @ r') = Inr (t, r')"
    using bound assms(2) at_boundary_prefix [of t r r']
    by (auto simp: parse_literal_def slice_token_prefix)
qed

subsection \<open>Numbers\<close>

lemma skip_digits_prefix:
  "\<exists>p. s = p @ skip_digits s \<and> (p = [] \<longleftrightarrow> length (skip_digits s) = length s) \<and> list_all is_ascii_digit p"
proof -
  have "length (takeWhile is_ascii_digit s) + length (skip_digits s) = length s"
    by (metis length_append skip_digits_def takeWhile_dropWhile_id)
  then show ?thesis
    by (intro exI [of _ "takeWhile is_ascii_digit s"]) (auto simp: skip_digits_def list_all_iff dest: set_takeWhileD)
qed

lemma skip_digits_append: "list_all is_ascii_digit p \<Longrightarrow> \<not> peek_digit r \<Longrightarrow> skip_digits (p @ r) = r"
  by (induction p) (auto simp: skip_digits_def peek_digit_def peek_byte_def split: list.splits)

lemma number_integer_prefix:
  assumes "number_integer s = Some s1"
  obtains p where "s = p @ s1" "p \<noteq> []" "hd p = CHR ''-'' \<or> is_ascii_digit (hd p)"
    "\<And>r. \<not> peek_digit r \<Longrightarrow> number_integer (p @ r) = Some r"
proof -
  define sign where "sign = (if peek_byte s = Some (CHR ''-'') then [CHR ''-''] else [])"
  define s0 where "s0 = (if peek_byte s = Some (CHR ''-'') then tl s else s)"
  have s: "s = sign @ s0"
    by (auto simp: sign_def s0_def peek_Some)
  have res: "(if peek_byte s0 = Some (CHR ''0'') then (if peek_digit (tl s0) then None else Some (tl s0))
      else if peek_digit s0 then Some (skip_digits (tl s0)) else None) = Some s1"
    using assms unfolding number_integer_def s0_def Let_def by simp
  then obtain d ds where s0: "s0 = d # ds" and d: "is_ascii_digit d"
    by (auto simp: peek_Some peek_digit_def peek_byte_def ascii_class_defs split: if_splits list.splits)
  have sgn: "number_integer (sign @ d # x) = (if d = CHR ''0'' then (if peek_digit x then None else Some x)
      else Some (skip_digits x))" for x
    using d by (auto simp: number_integer_def sign_def peek_byte_def peek_digit_def ascii_class_defs)
  obtain q where q: "ds = q @ s1" "d = CHR ''0'' \<Longrightarrow> q = []" "list_all is_ascii_digit q"
    using res s0 skip_digits_prefix [of ds] d
    by (cases "d = CHR ''0''") (auto simp: peek_byte_def peek_digit_def split: if_splits)
  show thesis
  proof (rule that [of "sign @ d # q"])
    show "s = (sign @ d # q) @ s1" using s s0 q by simp
    show "hd (sign @ d # q) = CHR ''-'' \<or> is_ascii_digit (hd (sign @ d # q))"
      using d by (simp add: sign_def)
    show "number_integer ((sign @ d # q) @ r) = Some r" if "\<not> peek_digit r" for r
      using that q sgn [of "q @ r"] by (auto simp: skip_digits_append)
  qed simp
qed

lemma number_fraction_prefix:
  assumes "number_fraction s = Some s1"
  obtains p where "s = p @ s1" "p = [] \<or> hd p = CHR ''.''"
    "\<And>r. \<not> peek_digit r \<Longrightarrow> peek_byte r \<noteq> Some (CHR ''.'') \<Longrightarrow> number_fraction (p @ r) = Some r"
proof (cases "peek_byte s = Some (CHR ''.'')")
  case True
  then obtain ds where s: "s = CHR ''.'' # ds" by (auto simp: peek_Some)
  obtain q where q: "ds = q @ s1" "q \<noteq> []" "list_all is_ascii_digit q"
    using assms skip_digits_prefix [of ds] s by (auto simp: number_fraction_def peek_byte_def Let_def split: if_splits)
  show thesis
    using q s by (intro that [of "CHR ''.'' # q"])
      (auto simp: number_fraction_def peek_byte_def skip_digits_append)
next
  case False
  then show thesis
    using assms that [of "[]"] by (auto simp: number_fraction_def)
qed

lemma number_exponent_prefix:
  assumes "number_exponent s = Some s1"
  obtains p where "s = p @ s1" "p = [] \<or> hd p \<in> {CHR ''e'', CHR ''E''}"
    "\<And>r. \<not> peek_digit r \<Longrightarrow> peek_byte r \<notin> {Some (CHR ''e''), Some (CHR ''E'')} \<Longrightarrow> number_exponent (p @ r) = Some r"
proof (cases "peek_byte s \<in> {Some (CHR ''e''), Some (CHR ''E'')}")
  case True
  then obtain e x where s: "s = e # x" and e: "e \<in> {CHR ''e'', CHR ''E''}"
    by (auto simp: peek_Some)
  define sign where "sign = (if peek_byte x \<in> {Some (CHR ''+''), Some (CHR ''-'')} then [hd x] else [])"
  define ds where "ds = (if peek_byte x \<in> {Some (CHR ''+''), Some (CHR ''-'')} then tl x else x)"
  have x: "x = sign @ ds"
    by (auto simp: sign_def ds_def peek_Some)
  obtain q where q: "ds = q @ s1" "q \<noteq> []" "list_all is_ascii_digit q"
    using assms skip_digits_prefix [of ds] s e
    by (auto simp: number_exponent_def peek_byte_def Let_def ds_def split: if_splits)
  have sgn: "sign \<in> {[], [CHR ''+''], [CHR ''-'']}"
    by (auto simp: sign_def peek_Some)
  have plain: "peek_byte (q @ r) \<notin> {Some (CHR ''+''), Some (CHR ''-'')}" for r
    using q(2,3) by (cases q) (auto simp: peek_byte_def ascii_class_defs)
  have "number_exponent (e # sign @ q @ r) = Some r" if "\<not> peek_digit r" for r
    using e sgn plain [of r] q(2) skip_digits_append [OF q(3) that]
    by (auto simp: number_exponent_def peek_byte_def Let_def)
  then show thesis
    using s x q e by (intro that [of "e # sign @ q"]) auto
next
  case False
  then show thesis
    using assms that [of "[]"] by (auto simp: number_exponent_def)
qed

lemma parse_number_token_prefix:
  assumes "parse_number_token s = Inr (t, r)"
  shows "s = t @ r" and "t \<noteq> []" and "hd t = CHR ''-'' \<or> is_ascii_digit (hd t)"
    and "delim r' \<Longrightarrow> parse_number_token (t @ r') = Inr (t, r')"
proof -
  from assms obtain s1 s2 s3 where n1: "number_integer s = Some s1" and n2: "number_fraction s1 = Some s2"
    and n3: "number_exponent s2 = Some s3" and slice: "slice_token s s3 = Inr (t, r)"
    by (auto simp: parse_number_token_def split: option.splits)
  obtain p where p: "s = p @ s1" "p \<noteq> []" "hd p = CHR ''-'' \<or> is_ascii_digit (hd p)"
    "\<And>r. \<not> peek_digit r \<Longrightarrow> number_integer (p @ r) = Some r"
    using number_integer_prefix [OF n1] by blast
  obtain q where q: "s1 = q @ s2" "q = [] \<or> hd q = CHR ''.''"
    "\<And>r. \<not> peek_digit r \<Longrightarrow> peek_byte r \<noteq> Some (CHR ''.'') \<Longrightarrow> number_fraction (q @ r) = Some r"
    using number_fraction_prefix [OF n2] by blast
  obtain e where e: "s2 = e @ s3" "e = [] \<or> hd e \<in> {CHR ''e'', CHR ''E''}"
    "\<And>r. \<not> peek_digit r \<Longrightarrow> peek_byte r \<notin> {Some (CHR ''e''), Some (CHR ''E'')} \<Longrightarrow> number_exponent (e @ r) = Some r"
    using number_exponent_prefix [OF n3] by blast
  have s: "s = (p @ q @ e) @ s3" using p(1) q(1) e(1) by simp
  have t: "t = p @ q @ e" "r = s3" "at_boundary s"
    using slice unfolding s slice_token_prefix by auto
  show "s = t @ r" "t \<noteq> []" "hd t = CHR ''-'' \<or> is_ascii_digit (hd t)"
    using s t p by auto
  assume r': "delim r'"
  have e': "\<not> peek_digit (e @ r')" "peek_byte (e @ r') \<noteq> Some (CHR ''.'')"
    using e(2) delim_facts [OF r'] by (cases e; auto simp: peek_digit_def peek_byte_def ascii_class_defs)+
  have q': "\<not> peek_digit (q @ e @ r')"
    using q(2) e' by (cases q) (auto simp: peek_digit_def peek_byte_def ascii_class_defs)
  have "at_boundary (t @ r')"
    using t(3) p(2) s at_boundary_prefix [of "p @ q @ e" s3 r'] by (simp add: t)
  then have "slice_token (t @ r') r' = Inr (t, r')"
    using delim_facts [OF r'] by (simp add: slice_token_prefix)
  then show "parse_number_token (t @ r') = Inr (t, r')"
    using p(4) [OF q'] q(3) [OF e'] e(3) delim_facts [OF r'] by (simp add: parse_number_token_def t)
qed

end
