(* ===== verification/Request_Encoding.thy ===== *)
theory Request_Encoding
  imports Request_Json
begin

text \<open>
  Properties of the body encoder: the strict JSON parser ends on every input, keeps its
  nesting bound and rejects duplicate keys; the bounded writer writes exactly the text of
  the value; and a receiver that reads the encoded body finds the public entries followed
  by the secret fields.
\<close>

section \<open>The parser ends\<close>

declare parse_object_entries.simps(2) [simp del] parse_array_values.simps(2) [simp del]

lemma parse_value_with_brackets:
  "parse_value_with unquote pv depth (CHR ''{'' # cs) = parse_object unquote pv depth (CHR ''{'' # cs)"
  "parse_value_with unquote pv depth (CHR ''['' # cs) = parse_array pv depth (CHR ''['' # cs)"
  by (simp_all add: parse_value_with_def peek_byte_def)

definition total_parser :: "value_parser \<Rightarrow> bool" where
  "total_parser pv \<longleftrightarrow> (\<forall>s. pv s \<noteq> None)"

definition shrinking :: "value_parser \<Rightarrow> bool" where
  "shrinking pv \<longleftrightarrow> (\<forall>s v r. pv s = Some (Inr (v, r)) \<longrightarrow> length r \<le> length s)"

lemma next_round_shorter:
  assumes "peek_byte (skip_whitespace s) = Some c"
  shows "length (skip_whitespace (tl (skip_whitespace s))) < length s"
proof -
  obtain r where "skip_whitespace s = c # r" using assms by (auto simp: peek_Some)
  then show ?thesis
    using skip_whitespace_length [of s] skip_whitespace_length [of r] by simp
qed

lemma last_round_shorter:
  "peek_byte (skip_whitespace s) = Some c \<Longrightarrow> length (tl (skip_whitespace s)) < length s"
  using skip_whitespace_length [of s] by (auto simp: peek_Some)

lemma string_token_shorter:
  "parse_string_token unquote s = Inr (t, r) \<Longrightarrow> length r < length s"
  using parse_string_token_prefix(1,2) [of unquote s t r] by simp

lemma parse_array_values_step:
  assumes "pv s = Some (Inr (v, s2))"
  shows "parse_array_values pv (Suc n) vs s =
    (let s3 = skip_whitespace s2; vs' = vs @ [v] in
     if peek_byte s3 = Some (CHR '','') then parse_array_values pv n vs' (skip_whitespace (tl s3))
     else if peek_byte s3 = Some (CHR '']'') then Some (Inr (Array vs', tl s3))
     else Some (Inl InvalidJson))"
  using assms by (simp add: parse_array_values.simps)

lemma parse_array_values_total:
  assumes "total_parser pv" "shrinking pv"
  shows "length s < n \<Longrightarrow> parse_array_values pv n vs s \<noteq> None"
proof (induction n arbitrary: vs s)
  case (Suc n)
  show ?case
  proof (cases "\<exists>v s2. pv s = Some (Inr (v, s2))")
    case True
    then obtain v s2 where pv: "pv s = Some (Inr (v, s2))" by blast
    have "length s2 \<le> length s" using assms(2) pv by (auto simp: shrinking_def)
    then have "peek_byte (skip_whitespace s2) = Some c \<Longrightarrow> length (skip_whitespace (tl (skip_whitespace s2))) < n" for c
      using next_round_shorter [of s2 c] Suc.prems by simp
    then show ?thesis
      using Suc.IH unfolding parse_array_values_step [of pv s _ s2 n vs, OF pv] Let_def by simp
  next
    case False
    then show ?thesis
      using assms(1) by (auto simp: total_parser_def parse_array_values.simps split: option.split sum.split)
  qed
qed simp

lemma parse_array_values_shrinks:
  assumes "shrinking pv"
  shows "parse_array_values pv n vs s = Some (Inr (v, r)) \<Longrightarrow> length r \<le> length s"
proof (induction n arbitrary: vs s)
  case (Suc n)
  then obtain w s2 where pv: "pv s = Some (Inr (w, s2))"
    by (auto simp: parse_array_values.simps split: option.splits sum.splits)
  have len: "length s2 \<le> length s" using assms pv by (auto simp: shrinking_def)
  show ?case
    using Suc.prems Suc.IH [of "vs @ [w]" "skip_whitespace (tl (skip_whitespace s2))"] len
      next_round_shorter [of s2 "CHR '',''"] last_round_shorter [of s2 "CHR '']''"]
    unfolding parse_array_values_step [of pv s _ s2 n vs, OF pv] Let_def
    by (auto split: if_splits)
qed simp

lemma parse_object_entries_step:
  assumes "parse_string_token unquote s = Inr (raw, s1)" and "unquote raw = Some key" and "key \<notin> set (map fst es)"
    and "peek_byte (skip_whitespace s1) = Some (CHR '':'')"
    and "pv (skip_whitespace (tl (skip_whitespace s1))) = Some (Inr (v, s2))"
  shows "parse_object_entries unquote pv (Suc n) es s =
    (let s3 = skip_whitespace s2; es' = es @ [(key, v)] in
     if peek_byte s3 = Some (CHR '','') then parse_object_entries unquote pv n es' (skip_whitespace (tl s3))
     else if peek_byte s3 = Some (CHR ''}'') then Some (Inr (Object es', tl s3))
     else Some (Inl InvalidJson))"
  using assms by (simp add: parse_object_entries.simps)

lemma parse_object_entries_cases:
  obtains (None) "parse_object_entries unquote pv (Suc n) es s = None" "\<exists>s'. pv s' = None"
  | (Error) e where "parse_object_entries unquote pv (Suc n) es s = Some (Inl e)"
  | (Step) raw s1 key v s2 where "parse_string_token unquote s = Inr (raw, s1)" "unquote raw = Some key"
      "key \<notin> set (map fst es)" "peek_byte (skip_whitespace s1) = Some (CHR '':'')"
      "pv (skip_whitespace (tl (skip_whitespace s1))) = Some (Inr (v, s2))"
proof (cases "parse_string_token unquote s")
  case (Inl e)
  then show thesis using Error by (simp add: parse_object_entries.simps)
next
  case tok: (Inr p)
  obtain raw s1 where p: "p = (raw, s1)" by (cases p)
  show thesis
  proof (cases "unquote raw")
    case None
    then show thesis using Error tok p by (simp add: parse_object_entries.simps)
  next
    case key: (Some key)
    let ?bad = "key \<in> set (map fst es) \<or> peek_byte (skip_whitespace s1) \<noteq> Some (CHR '':'')"
    show thesis
    proof (cases ?bad)
      case True
      then have "\<exists>e. parse_object_entries unquote pv (Suc n) es s = Some (Inl e)"
        using tok p key by (auto simp: parse_object_entries.simps)
      then show thesis using Error by blast
    next
      case False
      then show thesis
        using tok p key Error Step None
        by (cases "pv (skip_whitespace (tl (skip_whitespace s1)))"; cases "the (pv (skip_whitespace (tl (skip_whitespace s1))))")
          (auto simp: parse_object_entries.simps)
    qed
  qed
qed

lemma object_step_shorter:
  assumes "shrinking pv" "parse_string_token unquote s = Inr (raw, s1)"
    "pv (skip_whitespace (tl (skip_whitespace s1))) = Some (Inr (v, s2))"
  shows "length s2 < length s"
proof -
  have "length s2 \<le> length (skip_whitespace (tl (skip_whitespace s1)))"
    using assms(1,3) by (auto simp: shrinking_def)
  also have "\<dots> \<le> length s1"
    using skip_whitespace_length [of s1] skip_whitespace_length [of "tl (skip_whitespace s1)"] by simp
  also have "\<dots> < length s"
    using assms(2) by (rule string_token_shorter)
  finally show ?thesis .
qed

lemma parse_object_entries_total:
  assumes "total_parser pv" "shrinking pv"
  shows "length s < n \<Longrightarrow> parse_object_entries unquote pv n es s \<noteq> None"
proof (induction n arbitrary: es s)
  case (Suc n)
  show ?case
  proof (cases rule: parse_object_entries_cases [of unquote pv n es s])
    case None
    then show ?thesis using assms(1) unfolding total_parser_def by blast
  next
    case (Error e)
    then show ?thesis by simp
  next
    case (Step raw s1 key v s2)
    have "peek_byte (skip_whitespace s2) = Some c \<Longrightarrow> length (skip_whitespace (tl (skip_whitespace s2))) < n" for c
      using object_step_shorter [OF assms(2) Step(1,5)] next_round_shorter [of s2 c] Suc.prems by simp
    then show ?thesis
      using Suc.IH unfolding parse_object_entries_step [of unquote s raw s1 key es pv _ s2 n, OF Step] Let_def by simp
  qed
qed simp

lemma parse_object_entries_shrinks:
  assumes "shrinking pv"
  shows "parse_object_entries unquote pv n es s = Some (Inr (v, r)) \<Longrightarrow> length r \<le> length s"
proof (induction n arbitrary: es s)
  case (Suc n)
  show ?case
  proof (cases rule: parse_object_entries_cases [of unquote pv n es s])
    case (Step raw s1 key w s2)
    show ?thesis
      using Suc.prems Suc.IH [of "es @ [(key, w)]" "skip_whitespace (tl (skip_whitespace s2))"]
        object_step_shorter [OF assms Step(1,5)]
        next_round_shorter [of s2 "CHR '',''"] last_round_shorter [of s2 "CHR ''}''"]
      unfolding parse_object_entries_step [of unquote s raw s1 key es pv _ s2 n, OF Step] Let_def
      by (auto split: if_splits)
  qed (use Suc.prems in simp_all)
qed simp

text \<open>
  A scalar token that the parser has read is read again, whatever the nesting level, when
  a delimiter follows it.
\<close>

definition token_start :: "char \<Rightarrow> bool" where
  "token_start c \<longleftrightarrow> c \<in> {CHR 0x22, CHR ''t'', CHR ''f'', CHR ''n'', CHR ''-''} \<or> is_ascii_digit c"

definition token_ok :: "(string \<Rightarrow> string option) \<Rightarrow> string \<Rightarrow> bool" where
  "token_ok unquote t \<longleftrightarrow>
     t \<noteq> [] \<and> token_start (hd t) \<and>
     (\<forall>r pv depth. delim r \<longrightarrow> parse_value_with unquote pv depth (t @ r) = Some (Inr (Scalar t, r)))"

lemma parse_value_with_scalars:
  "parse_value_with unquote pv depth (CHR 0x22 # cs) = Some (scalar (parse_string_token unquote (CHR 0x22 # cs)))"
  "parse_value_with unquote pv depth (CHR ''t'' # cs) = Some (scalar (parse_literal ''true'' (CHR ''t'' # cs)))"
  "parse_value_with unquote pv depth (CHR ''f'' # cs) = Some (scalar (parse_literal ''false'' (CHR ''f'' # cs)))"
  "parse_value_with unquote pv depth (CHR ''n'' # cs) = Some (scalar (parse_literal ''null'' (CHR ''n'' # cs)))"
  by (simp_all add: parse_value_with_def peek_byte_def)

lemma parse_value_with_number:
  "c = CHR ''-'' \<or> is_ascii_digit c \<Longrightarrow> parse_value_with unquote pv depth (c # cs) = Some (scalar (parse_number_token (c # cs)))"
proof -
  assume c: "c = CHR ''-'' \<or> is_ascii_digit c"
  then have "c \<noteq> CHR ''{''" "c \<noteq> CHR ''[''" "c \<noteq> CHR 0x22" "c \<noteq> CHR ''t''" "c \<noteq> CHR ''f''" "c \<noteq> CHR ''n''"
    by (auto simp: is_ascii_digit_def)
  then show ?thesis
    using c by (simp add: parse_value_with_def peek_byte_def)
qed

lemma scalar_Inr: "scalar res = Inr (v, r) \<longleftrightarrow> (\<exists>t. res = Inr (t, r) \<and> v = Scalar t)"
  by (cases res rule: scalar.cases) auto

lemma string_token_ok:
  assumes "parse_string_token unquote s = Inr (t, r)"
  shows "token_ok unquote t"
proof -
  note tok = parse_string_token_prefix [OF assms]
  obtain p where t: "t = CHR 0x22 # p" using tok(2,3) by (cases t) auto
  show ?thesis
    using tok(5) delim_facts(1) by (auto simp: token_ok_def t parse_value_with_scalars token_start_def)
qed

lemma literal_token_ok:
  assumes "parse_literal lit s = Inr (t, r)" and "lit \<in> {''true'', ''false'', ''null''}"
  shows "token_ok unquote t"
proof -
  have ne: "lit \<noteq> []" using assms(2) by auto
  note tok = parse_literal_prefix [OF assms(1) ne]
  show ?thesis
    using assms(2) tok(2) tok(3) [OF delim_facts(1)]
    by (auto simp: token_ok_def parse_value_with_scalars token_start_def)
qed

lemma number_token_ok:
  assumes "parse_number_token s = Inr (t, r)"
  shows "token_ok unquote t"
proof -
  note tok = parse_number_token_prefix [OF assms]
  obtain c p where t: "t = c # p" using tok(2) by (cases t) auto
  show ?thesis
    using tok(3,4) by (auto simp: token_ok_def t parse_value_with_number token_start_def)
qed

lemma parse_value_with_token:
  assumes "parse_value_with unquote pv depth s = Some (Inr (v, r))" and "peek_byte s \<notin> {Some (CHR ''{''), Some (CHR ''['')}"
  shows "\<exists>t. v = Scalar t \<and> s = t @ r \<and> token_ok unquote t"
proof -
  obtain c cs where s: "s = c # cs" and c: "c \<noteq> CHR ''{''" "c \<noteq> CHR ''[''"
    using assms by (cases s) (auto simp: parse_value_with_def peek_byte_def)
  have start: "c = CHR 0x22 \<or> c = CHR ''t'' \<or> c = CHR ''f'' \<or> c = CHR ''n'' \<or> c = CHR ''-'' \<or> is_ascii_digit c"
  proof (rule ccontr)
    assume "\<not> ?thesis"
    then have "parse_value_with unquote pv depth s = Some (Inl InvalidJson)"
      using c by (simp add: s parse_value_with_def peek_byte_def)
    then show False using assms(1) by simp
  qed
  consider "c = CHR 0x22" | lit where "lit \<in> {''true'', ''false'', ''null''}"
      "parse_value_with unquote pv depth s = Some (scalar (parse_literal lit s))"
    | "c = CHR ''-'' \<or> is_ascii_digit c"
    using start parse_value_with_scalars [of unquote pv depth cs] unfolding s by blast
  then show ?thesis
  proof cases
    case 1
    then obtain t where "parse_string_token unquote s = Inr (t, r)" "v = Scalar t"
      using assms(1) s by (auto simp: parse_value_with_scalars scalar_Inr)
    then show ?thesis using string_token_ok parse_string_token_prefix(1) by blast
  next
    case 2
    then obtain t where t: "parse_literal lit s = Inr (t, r)" "v = Scalar t"
      using assms(1) by (metis option.inject scalar_Inr)
    have "lit \<noteq> []" using 2(1) by auto
    then show ?thesis using literal_token_ok [OF t(1) 2(1)] parse_literal_prefix(1) [OF t(1)] t(2) by blast
  next
    case 3
    then obtain t where "parse_number_token s = Inr (t, r)" "v = Scalar t"
      using assms(1) s by (auto simp: parse_value_with_number scalar_Inr)
    then show ?thesis using number_token_ok parse_number_token_prefix(1) by blast
  qed
qed

lemma parse_value_with_shrinks:
  assumes "shrinking pv"
  shows "shrinking (parse_value_with unquote pv depth)"
  unfolding shrinking_def
proof (intro allI impI)
  fix s v r
  assume res: "parse_value_with unquote pv depth s = Some (Inr (v, r))"
  then obtain c cs where s: "s = c # cs"
    by (auto simp: parse_value_with_def peek_byte_def split: list.splits)
  have ws: "length (skip_whitespace cs) \<le> length cs" by (rule skip_whitespace_length)
  consider "c = CHR ''{''" | "c = CHR ''[''" | "peek_byte s \<notin> {Some (CHR ''{''), Some (CHR ''['')}"
    using s by (auto simp: peek_byte_def)
  then show "length r \<le> length s"
  proof cases
    case 1
    then show ?thesis
      using res s ws parse_object_entries_shrinks [OF assms, of unquote "length s" "[]" "skip_whitespace cs" v r]
      by (auto simp: parse_value_with_brackets peek_Some parse_object_def Let_def split: if_splits)
  next
    case 2
    then show ?thesis
      using res s ws parse_array_values_shrinks [OF assms, of "length s" "[]" "skip_whitespace cs" v r]
      by (auto simp: parse_value_with_brackets peek_Some parse_array_def Let_def split: if_splits)
  next
    case 3
    then show ?thesis
      using parse_value_with_token [OF res] by auto
  qed
qed

lemma parse_value_with_total:
  assumes "depth < MAX_JSON_DEPTH \<Longrightarrow> total_parser pv" "shrinking pv"
  shows "total_parser (parse_value_with unquote pv depth)"
  unfolding total_parser_def
proof
  fix s
  show "parse_value_with unquote pv depth s \<noteq> None"
  proof (cases s)
    case (Cons c cs)
    have "length (skip_whitespace cs) < length s"
      using skip_whitespace_length [of cs] Cons by simp
    then show ?thesis
      using Cons assms parse_object_entries_total [of pv "skip_whitespace cs" "length s"]
        parse_array_values_total [of pv "skip_whitespace cs" "length s"]
      by (auto simp: parse_value_with_def peek_byte_def parse_object_def parse_array_def Let_def)
  qed (simp add: parse_value_with_def peek_byte_def)
qed

lemma parse_levels_shrinking: "shrinking (parse_levels unquote k)"
proof (induction k)
  case 0
  then show ?case
    by (simp add: parse_value_with_shrinks shrinking_def [of "\<lambda>_. None"])
qed (simp add: parse_value_with_shrinks)

lemma parse_levels_total: "total_parser (parse_levels unquote k)"
proof (induction k)
  case 0
  show ?case
    unfolding parse_levels.simps by (rule parse_value_with_total) (simp_all add: shrinking_def)
next
  case (Suc k)
  then show ?case
    unfolding parse_levels.simps by (intro parse_value_with_total parse_levels_shrinking)
qed

lemma parse_document_total: "parse_document unquote s \<noteq> None"
  using parse_levels_total [of unquote MAX_JSON_DEPTH]
  by (auto simp: parse_document_def parse_value_def total_parser_def split: option.splits sum.splits)

lemma encode_json_object_total: "encode_json_object unquote quote body fs \<noteq> None"
  by (auto simp: encode_json_object_def public_json_def parse_document_total
      split: option.splits sum.splits prod.splits json_public_value.splits)

section \<open>What the parser returns\<close>

text \<open>
  \<open>printable unquote k v\<close>: \<open>v\<close> nests at most \<open>k\<close> levels, no object of it has a key twice,
  every key is a string that \<open>unquote\<close> has returned, and every scalar is a token.
\<close>

fun printable :: "(string \<Rightarrow> string option) \<Rightarrow> nat \<Rightarrow> json_public_value \<Rightarrow> bool" where
  "printable unquote k (Scalar t) = token_ok unquote t"
| "printable unquote 0 (Array vs) = False"
| "printable unquote (Suc k) (Array vs) = (\<forall>v \<in> set vs. printable unquote k v)"
| "printable unquote 0 (Object es) = False"
| "printable unquote (Suc k) (Object es) =
     (distinct (map fst es) \<and> (\<forall>e \<in> set es. fst e \<in> Option.these (range unquote) \<and> printable unquote k (snd e)))"

lemma parse_array_values_result:
  "parse_array_values pv n vs s = Some (Inr (v, r)) \<Longrightarrow>
     \<exists>vs'. v = Array (vs @ vs') \<and> (\<forall>w \<in> set vs'. \<exists>s' r'. pv s' = Some (Inr (w, r')))"
proof (induction n arbitrary: vs s)
  case (Suc n)
  then obtain w s2 where pv: "pv s = Some (Inr (w, s2))"
    by (auto simp: parse_array_values.simps split: option.splits sum.splits)
  from Suc.prems consider "v = Array (vs @ [w])"
    | "parse_array_values pv n (vs @ [w]) (skip_whitespace (tl (skip_whitespace s2))) = Some (Inr (v, r))"
    unfolding parse_array_values_step [of pv s _ s2 n vs, OF pv] Let_def by (auto split: if_splits)
  then show ?case
  proof cases
    case 2
    from Suc.IH [OF this] obtain vs' where vs': "v = Array ((vs @ [w]) @ vs')"
      "\<forall>w \<in> set vs'. \<exists>s' r'. pv s' = Some (Inr (w, r'))" by blast
    show ?thesis
      using pv vs' by (intro exI [of _ "w # vs'"]) auto
  qed (use pv in auto)
qed simp

lemma parse_object_entries_result:
  "parse_object_entries unquote pv n es s = Some (Inr (v, r)) \<Longrightarrow> distinct (map fst es) \<Longrightarrow>
     \<exists>es'. v = Object (es @ es') \<and> distinct (map fst (es @ es')) \<and>
       (\<forall>e \<in> set es'. fst e \<in> Option.these (range unquote) \<and> (\<exists>s' r'. pv s' = Some (Inr (snd e, r'))))"
proof (induction n arbitrary: es s)
  case (Suc n)
  show ?case
  proof (cases rule: parse_object_entries_cases [of unquote pv n es s])
    case (Step raw s1 key w s2)
    have key: "key \<in> Option.these (range unquote)"
      using Step(2) by (metis in_these_eq range_eqI)
    have dist: "distinct (map fst (es @ [(key, w)]))"
      using Suc.prems(2) Step(3) by simp
    from Suc.prems consider "v = Object (es @ [(key, w)])"
      | "parse_object_entries unquote pv n (es @ [(key, w)]) (skip_whitespace (tl (skip_whitespace s2))) = Some (Inr (v, r))"
      unfolding parse_object_entries_step [of unquote s raw s1 key es pv _ s2 n, OF Step] Let_def
      by (auto split: if_splits)
    then show ?thesis
    proof cases
      case 1
      then show ?thesis
        using Step(5) key dist by (intro exI [of _ "[(key, w)]"]) auto
    next
      case 2
      from Suc.IH [OF this dist] obtain es' where es': "v = Object ((es @ [(key, w)]) @ es')"
        "distinct (map fst ((es @ [(key, w)]) @ es'))"
        "\<forall>e \<in> set es'. fst e \<in> Option.these (range unquote) \<and> (\<exists>s' r'. pv s' = Some (Inr (snd e, r')))" by blast
      show ?thesis
        using es' key Step(5) by (intro exI [of _ "(key, w) # es'"]) auto
    qed
  qed (use Suc.prems in simp_all)
qed simp

lemma parse_value_with_result:
  assumes res: "parse_value_with unquote pv depth s = Some (Inr (v, r))"
    and nested: "\<And>s' w r'. depth < MAX_JSON_DEPTH \<Longrightarrow> pv s' = Some (Inr (w, r')) \<Longrightarrow> printable unquote (k - 1) w"
    and k: "depth < MAX_JSON_DEPTH \<Longrightarrow> 0 < k"
  shows "printable unquote k v"
proof -
  consider cs where "s = CHR ''{'' # cs" | cs where "s = CHR ''['' # cs"
    | "peek_byte s \<notin> {Some (CHR ''{''), Some (CHR ''['')}"
    by (auto simp: peek_Some)
  then show ?thesis
  proof cases
    case (1 cs)
    then have d: "depth < MAX_JSON_DEPTH" and cases: "v = Object [] \<or>
        parse_object_entries unquote pv (length s) [] (skip_whitespace cs) = Some (Inr (v, r))"
      using res by (auto simp: parse_value_with_brackets parse_object_def Let_def split: if_splits)
    obtain j where j: "k = Suc j" using k [OF d] by (cases k) auto
    show ?thesis
      using cases parse_object_entries_result [of unquote pv "length s" "[]" "skip_whitespace cs" v r] nested [OF d] j
      by fastforce
  next
    case (2 cs)
    then have d: "depth < MAX_JSON_DEPTH" and cases: "v = Array [] \<or>
        parse_array_values pv (length s) [] (skip_whitespace cs) = Some (Inr (v, r))"
      using res by (auto simp: parse_value_with_brackets parse_array_def Let_def split: if_splits)
    obtain j where j: "k = Suc j" using k [OF d] by (cases k) auto
    show ?thesis
      using cases parse_array_values_result [of pv "length s" "[]" "skip_whitespace cs" v r] nested [OF d] j
      by fastforce
  next
    case 3
    then show ?thesis using parse_value_with_token [OF res] by auto
  qed
qed

lemma parse_levels_printable:
  "parse_levels unquote k s = Some (Inr (v, r)) \<Longrightarrow> k \<le> MAX_JSON_DEPTH \<Longrightarrow> printable unquote k v"
proof (induction k arbitrary: s v r)
  case 0
  show ?case
    using 0(1) unfolding parse_levels.simps by (rule parse_value_with_result) simp_all
next
  case (Suc k)
  show ?case
    using Suc(2) unfolding parse_levels.simps
    by (rule parse_value_with_result) (use Suc in auto)
qed

lemma parse_document_printable:
  "parse_document unquote s = Some (Inr v) \<Longrightarrow> printable unquote MAX_JSON_DEPTH v"
  using parse_levels_printable [of unquote MAX_JSON_DEPTH "skip_whitespace s"]
  by (auto simp: parse_document_def parse_value_def split: option.splits sum.splits if_splits)

section \<open>The text of a value\<close>

definition comma :: "bool \<Rightarrow> string" where
  "comma first = (if first then [] else '','')"

fun json_text :: "(string \<Rightarrow> string list) \<Rightarrow> json_public_value \<Rightarrow> string"
  and values_text :: "(string \<Rightarrow> string list) \<Rightarrow> bool \<Rightarrow> json_public_value list \<Rightarrow> string"
  and entries_text :: "(string \<Rightarrow> string list) \<Rightarrow> bool \<Rightarrow> (string \<times> json_public_value) list \<Rightarrow> string" where
  "json_text quote (Scalar t) = t"
| "json_text quote (Array vs) = ''['' @ values_text quote True vs @ '']''"
| "json_text quote (Object es) = ''{'' @ entries_text quote True es @ ''}''"
| "values_text quote first [] = []"
| "values_text quote first (v # vs) = comma first @ json_text quote v @ values_text quote False vs"
| "entries_text quote first [] = []"
| "entries_text quote first ((k, v) # es) =
     comma first @ concat (quote k) @ '':'' @ json_text quote v @ entries_text quote False es"

definition field_entry :: "(string \<Rightarrow> string list) \<Rightarrow> secret_field \<Rightarrow> string \<times> json_public_value" where
  "field_entry quote f = (sf_name f, Scalar (concat (quote (sf_value f))))"

lemma entries_text_append:
  "entries_text quote first (es @ es') = entries_text quote first es @ entries_text quote (first \<and> es = []) es'"
proof (induction es arbitrary: first)
  case (Cons e es)
  then show ?case by (cases e) simp
qed simp

text \<open>
  \<open>writes m t a\<close>: from a writer that has not overflowed, \<open>m\<close> appends exactly the text \<open>t\<close>
  and returns \<open>a\<close>, or overflows when the text does not fit.
\<close>

definition writes :: "(bounded_json_writer, request_body_error, 'a) eff \<Rightarrow> string \<Rightarrow> 'a \<Rightarrow> bool" where
  "writes m t a \<longleftrightarrow>
     (\<forall>w. length (encoded w) \<le> MAX_BODY_BYTES \<and> \<not> exceeded w \<longrightarrow>
        (if length (encoded w) + length t \<le> MAX_BODY_BYTES
         then m w = (Inr a, w\<lparr>encoded := encoded w @ t\<rparr>)
         else fst (m w) = Inl OutputTooLarge \<and> exceeded (snd (m w))))"

lemma writes_ret: "writes (ret a) [] a"
  by (simp add: writes_def ret_def)

lemma writes_and_then:
  assumes "writes m t a" "writes (f a) t' b"
  shows "writes (and_then m f) (t @ t') b"
  unfolding writes_def
proof (intro allI impI)
  fix w :: bounded_json_writer
  assume w: "length (encoded w) \<le> MAX_BODY_BYTES \<and> \<not> exceeded w"
  show "if length (encoded w) + length (t @ t') \<le> MAX_BODY_BYTES
    then and_then m f w = (Inr b, w\<lparr>encoded := encoded w @ t @ t'\<rparr>)
    else fst (and_then m f w) = Inl OutputTooLarge \<and> exceeded (snd (and_then m f w))"
  proof (cases "length (encoded w) + length t \<le> MAX_BODY_BYTES")
    case True
    then have "m w = (Inr a, w\<lparr>encoded := encoded w @ t\<rparr>)"
      using assms(1) w by (auto simp: writes_def)
    then show ?thesis
      using assms(2) w True unfolding writes_def
      by (auto simp: and_then_def dest!: spec [of _ "w\<lparr>encoded := encoded w @ t\<rparr>"])
  next
    case False
    then have "fst (m w) = Inl OutputTooLarge" "exceeded (snd (m w))"
      using assms(1) w by (auto simp: writes_def)
    then show ?thesis
      using False by (cases "m w") (auto simp: and_then_def)
  qed
qed

lemma writes_seq: "writes m t () \<Longrightarrow> writes (f ()) t' b \<Longrightarrow> writes (and_then m f) (t @ t') b"
  by (rule writes_and_then)

lemma write_json_bytes_writes: "writes (write_json_bytes t) t ()"
  by (auto simp: writes_def write_json_bytes_def write_all_def writer_write_def writer_failure_def)

lemma to_writer_exact:
  "length (encoded w) \<le> MAX_BODY_BYTES \<Longrightarrow>
     (if length (encoded w) + length (concat cs) \<le> MAX_BODY_BYTES
      then to_writer cs w = (Inr (), w\<lparr>encoded := encoded w @ concat cs\<rparr>)
      else fst (to_writer cs w) = Inl () \<and> exceeded (snd (to_writer cs w)))"
proof (induction cs arbitrary: w)
  case (Cons c cs)
  show ?case
  proof (cases "length (encoded w) + length c \<le> MAX_BODY_BYTES")
    case True
    then have "write_all c w = (Inr (), w\<lparr>encoded := encoded w @ c\<rparr>)"
      by (simp add: write_all_def writer_write_def)
    then show ?thesis
      using Cons.IH [of "w\<lparr>encoded := encoded w @ c\<rparr>"] True by (simp add: add.assoc)
  next
    case False
    then have "write_all c w = (Inl (), w\<lparr>exceeded := True\<rparr>)"
      using Cons.prems by (auto simp: write_all_def writer_write_def)
    then show ?thesis
      using False by simp
  qed
qed simp

lemma write_json_string_writes: "writes (write_json_string quote v) (concat (quote v)) ()"
  unfolding writes_def
proof (intro allI impI)
  fix w :: bounded_json_writer
  assume "length (encoded w) \<le> MAX_BODY_BYTES \<and> \<not> exceeded w"
  then show "if length (encoded w) + length (concat (quote v)) \<le> MAX_BODY_BYTES
    then write_json_string quote v w = (Inr (), w\<lparr>encoded := encoded w @ concat (quote v)\<rparr>)
    else fst (write_json_string quote v w) = Inl OutputTooLarge \<and> exceeded (snd (write_json_string quote v w))"
    using to_writer_exact [of w "quote v"]
    by (cases "to_writer (quote v) w") (auto simp: write_json_string_def writer_failure_def split: if_splits)
qed

lemma write_separator_writes: "writes (write_separator first) (comma first) ()"
  by (simp add: write_separator_def comma_def writes_ret write_json_bytes_writes)

lemmas writes_intros = writes_seq write_separator_writes write_json_string_writes write_json_bytes_writes

lemma write_fields_writes: "writes (write_fields quote first fs) (entries_text quote first (map (field_entry quote) fs)) ()"
proof (induction fs arbitrary: first)
  case (Cons f fs)
  then show ?case
    unfolding write_fields.simps list.map field_entry_def [of quote f] entries_text.simps json_text.simps
    by (intro writes_intros)
qed (simp add: writes_ret)

lemma write_json_writes:
  "writes (write_json_value quote v) (json_text quote v) ()"
  "writes (write_values quote first vs) (values_text quote first vs) ()"
  "writes (write_json_object quote es fs) (json_text quote (Object (es @ map (field_entry quote) fs))) ()"
  "writes (write_entries quote first es) (entries_text quote first es) (first \<and> es = [])"
proof (induction quote v and quote first vs and quote es fs and quote first es
    rule: write_json_value_write_values_write_json_object_write_entries.induct)
  case (6 quote es fs)
  have "writes (write_json_object quote es fs)
    (''{'' @ entries_text quote True es @ entries_text quote (True \<and> es = []) (map (field_entry quote) fs) @ ''}'') ()"
    unfolding write_json_object.simps
    by (intro writes_intros writes_and_then [OF 6] write_fields_writes)
  then show ?case by (simp add: entries_text_append)
next
  case (8 quote first key v es)
  have rest: "writes (write_entries quote False es) (entries_text quote False es) False"
    using 8 by simp
  show ?case
    unfolding write_entries.simps entries_text.simps
    using rest by (simp only: list.simps simp_thms, intro writes_intros 8)
next
  case (2 quote vs)
  show ?case
    unfolding write_json_value.simps json_text.simps by (intro writes_intros 2)
next
  case (5 quote first v vs)
  show ?case
    unfolding write_values.simps values_text.simps by (intro writes_intros 5)
qed (simp_all add: writes_ret write_json_bytes_writes)

section \<open>Reading the written text\<close>

text \<open>
  What the encoder relies on of \<open>serde_json\<close>: a string that \<open>from_str\<close> returns is UTF-8,
  and \<open>to_writer\<close> writes a JSON string token that \<open>from_str\<close> reads back.
\<close>

definition serde_strings :: "(string \<Rightarrow> string option) \<Rightarrow> (string \<Rightarrow> string list) \<Rightarrow> bool" where
  "serde_strings unquote quote \<longleftrightarrow>
     (\<forall>t k. unquote t = Some k \<longrightarrow> utf8_valid k) \<and>
     (\<forall>k. utf8_valid k \<longrightarrow>
        unquote (concat (quote k)) = Some k \<and>
        (\<exists>b. concat (quote k) = CHR 0x22 # b \<and> (\<forall>r. scan_string (b @ r) = Some r)))"

lemma quoted_string_token:
  assumes "serde_strings unquote quote" "utf8_valid k" "at_boundary r"
  shows "parse_string_token unquote (concat (quote k) @ r) = Inr (concat (quote k), r)"
proof -
  obtain b where b: "concat (quote k) = CHR 0x22 # b" "\<And>r. scan_string (b @ r) = Some r"
    and u: "unquote (concat (quote k)) = Some k"
    using assms(1,2) by (auto simp: serde_strings_def)
  have "slice_token (concat (quote k) @ r) r = Inr (concat (quote k), r)"
    unfolding slice_token_prefix using b(1) assms(3) by (simp add: at_boundary_def is_cont_def)
  then show ?thesis
    using b u by (simp add: parse_string_token_def peek_byte_def)
qed

lemma quoted_token_ok:
  "serde_strings unquote quote \<Longrightarrow> utf8_valid k \<Longrightarrow> token_ok unquote (concat (quote k))"
  using quoted_string_token [of unquote quote k "[]"] string_token_ok
  by (auto simp: at_boundary_def)

definition head_ok :: "string \<Rightarrow> bool" where
  "head_ok t \<longleftrightarrow> t \<noteq> [] \<and> \<not> is_json_space (hd t) \<and> hd t \<notin> {CHR '']'', CHR ''}''}"

lemma head_ok_append: "head_ok t \<Longrightarrow> skip_whitespace (t @ r) = t @ r"
  by (cases t) (auto simp: head_ok_def skip_whitespace_def)

lemma head_ok_peek:
  "head_ok t \<Longrightarrow> peek_byte (t @ r) \<noteq> Some (CHR '']'')" "head_ok t \<Longrightarrow> peek_byte (t @ r) \<noteq> Some (CHR ''}'')"
  by (cases t; auto simp: head_ok_def peek_byte_def)+

lemma token_head_ok: "token_ok unquote t \<Longrightarrow> head_ok t"
  by (auto simp: token_ok_def head_ok_def token_start_def is_json_space_def is_ascii_digit_def)

lemma json_text_head_ok: "printable unquote k v \<Longrightarrow> head_ok (json_text quote v)"
  by (cases v) (simp_all add: token_head_ok, simp_all add: head_ok_def is_json_space_def)

lemma values_text_False: "vs \<noteq> [] \<Longrightarrow> values_text quote False vs = CHR '','' # values_text quote True vs"
  by (cases vs) (simp_all add: comma_def)

lemma entries_text_False: "es \<noteq> [] \<Longrightarrow> entries_text quote False es = CHR '','' # entries_text quote True es"
  by (cases es rule: list.exhaust) (auto simp: comma_def)

lemma skip_comma: "skip_whitespace (CHR '','' # s) = CHR '','' # s" "skip_whitespace (CHR '':'' # s) = CHR '':'' # s"
    "skip_whitespace (CHR '']'' # s) = CHR '']'' # s" "skip_whitespace (CHR ''}'' # s) = CHR ''}'' # s"
  by (simp_all add: skip_whitespace_def is_json_space_def)

definition reads_back :: "value_parser \<Rightarrow> (string \<Rightarrow> string list) \<Rightarrow> json_public_value \<Rightarrow> bool" where
  "reads_back pv quote v \<longleftrightarrow>
     head_ok (json_text quote v) \<and> (\<forall>r. delim r \<longrightarrow> pv (json_text quote v @ r) = Some (Inr (v, r)))"

lemma values_text_head_ok:
  "vs \<noteq> [] \<Longrightarrow> \<forall>v \<in> set vs. head_ok (json_text quote v) \<Longrightarrow> head_ok (values_text quote True vs)"
  by (cases vs) (auto simp: comma_def head_ok_def)

lemma parse_array_values_reads:
  "vs \<noteq> [] \<Longrightarrow> length vs \<le> n \<Longrightarrow> \<forall>v \<in> set vs. reads_back pv quote v \<Longrightarrow>
     parse_array_values pv n acc (values_text quote True vs @ CHR '']'' # r) = Some (Inr (Array (acc @ vs), r))"
proof (induction vs arbitrary: n acc)
  case (Cons v vs)
  obtain m where n: "n = Suc m" using Cons.prems(2) by (cases n) auto
  let ?rest = "values_text quote False vs @ CHR '']'' # r"
  have "delim ?rest"
    by (cases vs) (simp_all add: delim_def comma_def)
  then have pv: "pv (json_text quote v @ ?rest) = Some (Inr (v, ?rest))"
    using Cons.prems(3) by (simp add: reads_back_def)
  have split: "values_text quote True (v # vs) @ CHR '']'' # r = json_text quote v @ ?rest"
    by (simp add: comma_def)
  show ?case
  proof (cases "vs = []")
    case True
    then show ?thesis
      unfolding n split parse_array_values_step [of pv _ _ ?rest m acc, OF pv] Let_def
      by (simp add: skip_comma peek_byte_def)
  next
    case False
    have "head_ok (values_text quote True vs)"
      using False Cons.prems(3) by (auto simp: reads_back_def intro!: values_text_head_ok)
    then have "parse_array_values pv m (acc @ [v]) (skip_whitespace (values_text quote True vs @ CHR '']'' # r)) =
        Some (Inr (Array ((acc @ [v]) @ vs), r))"
      using Cons.IH [OF False, of m "acc @ [v]"] Cons.prems n by (simp add: head_ok_append)
    then show ?thesis
      unfolding n split parse_array_values_step [of pv _ _ ?rest m acc, OF pv] Let_def
      using False by (simp add: values_text_False skip_comma peek_byte_def)
  qed
qed simp

lemma entries_text_head_ok:
  assumes "es \<noteq> []" "serde_strings unquote quote" "\<forall>e \<in> set es. utf8_valid (fst e)"
  shows "head_ok (entries_text quote True es)"
proof (cases es)
  case (Cons e es')
  obtain b where "concat (quote (fst e)) = CHR 0x22 # b"
    using assms(2,3) Cons by (auto simp: serde_strings_def)
  then show ?thesis
    using Cons by (cases e) (simp add: comma_def head_ok_def is_json_space_def)
qed (use assms in simp)

lemma parse_object_entries_reads:
  assumes serde: "serde_strings unquote quote"
  shows "es \<noteq> [] \<Longrightarrow> length es \<le> n \<Longrightarrow> \<forall>e \<in> set es. utf8_valid (fst e) \<and> reads_back pv quote (snd e) \<Longrightarrow>
     distinct (map fst (acc @ es)) \<Longrightarrow>
     parse_object_entries unquote pv n acc (entries_text quote True es @ CHR ''}'' # r) = Some (Inr (Object (acc @ es), r))"
proof (induction es arbitrary: n acc)
  case (Cons e es)
  obtain k v where e: "e = (k, v)" by (cases e)
  obtain m where n: "n = Suc m" using Cons.prems(2) by (cases n) auto
  let ?rest = "entries_text quote False es @ CHR ''}'' # r"
  let ?s1 = "CHR '':'' # json_text quote v @ ?rest"
  have "delim ?rest"
    by (cases es rule: list.exhaust) (auto simp: delim_def comma_def split: prod.splits)
  then have pv: "pv (json_text quote v @ ?rest) = Some (Inr (v, ?rest))" and head: "head_ok (json_text quote v)"
    using Cons.prems(3) by (auto simp: reads_back_def e)
  have split: "entries_text quote True (e # es) @ CHR ''}'' # r = concat (quote k) @ ?s1"
    by (simp add: comma_def e)
  have tok: "parse_string_token unquote (concat (quote k) @ ?s1) = Inr (concat (quote k), ?s1)"
    using serde Cons.prems(3) by (intro quoted_string_token) (auto simp: e at_boundary_def is_cont_def)
  have key: "unquote (concat (quote k)) = Some k" "k \<notin> set (map fst acc)"
    using serde Cons.prems(3,4) by (auto simp: serde_strings_def e)
  have colon: "peek_byte (skip_whitespace ?s1) = Some (CHR '':'')"
    by (simp add: skip_comma peek_byte_def)
  have pv': "pv (skip_whitespace (tl (skip_whitespace ?s1))) = Some (Inr (v, ?rest))"
    using pv head by (simp add: skip_comma head_ok_append)
  note step = parse_object_entries_step [of unquote _ _ ?s1 k acc pv v ?rest m, OF tok key colon pv']
  show ?case
  proof (cases "es = []")
    case True
    then show ?thesis
      unfolding n split step Let_def by (simp add: skip_comma peek_byte_def e)
  next
    case False
    have "head_ok (entries_text quote True es)"
      using False serde Cons.prems(3) by (intro entries_text_head_ok) auto
    then have "parse_object_entries unquote pv m (acc @ [(k, v)]) (skip_whitespace (entries_text quote True es @ CHR ''}'' # r)) =
        Some (Inr (Object ((acc @ [(k, v)]) @ es), r))"
      using Cons.IH [OF False, of m "acc @ [(k, v)]"] Cons.prems n by (simp add: head_ok_append e)
    then show ?thesis
      unfolding n split step Let_def using False by (simp add: entries_text_False skip_comma peek_byte_def e)
  qed
qed simp

lemma values_text_length: "\<forall>v \<in> set vs. head_ok (json_text quote v) \<Longrightarrow> length vs \<le> length (values_text quote first vs)"
proof (induction vs arbitrary: first)
  case (Cons v vs)
  then show ?case
    using le_trans [OF Cons.IH [of False]] by (cases "json_text quote v") (auto simp: head_ok_def)
qed simp

lemma entries_text_length: "length es \<le> length (entries_text quote first es)"
proof (induction es arbitrary: first)
  case (Cons e es)
  then show ?case
    using le_trans [OF Cons.IH [of False]] by (cases e) auto
qed simp

lemma parse_value_with_reads:
  assumes serde: "serde_strings unquote quote" and v: "printable unquote (Suc k) v"
    and nested: "\<And>w. printable unquote k w \<Longrightarrow> reads_back pv quote w" and depth: "depth < MAX_JSON_DEPTH" and r: "delim r"
  shows "parse_value_with unquote pv depth (json_text quote v @ r) = Some (Inr (v, r))"
proof (cases v)
  case (Scalar t)
  then show ?thesis using v r by (simp add: token_ok_def)
next
  case (Array vs)
  have all: "\<forall>v \<in> set vs. reads_back pv quote v"
    using v nested by (simp add: Array)
  then have "length vs \<le> length (values_text quote True vs)"
    by (intro values_text_length) (simp add: reads_back_def)
  then show ?thesis
    using depth parse_array_values_reads [OF _ _ all, of "length (json_text quote v @ r)" "[]" r]
      all values_text_head_ok [of vs quote]
    by (cases "vs = []")
      (simp_all add: Array parse_value_with_brackets parse_array_def Let_def skip_comma peek_byte_def [of "CHR '']'' # r"]
        head_ok_append head_ok_peek reads_back_def)
next
  case (Object es)
  have keys: "\<forall>e \<in> set es. utf8_valid (fst e) \<and> reads_back pv quote (snd e)" and dist: "distinct (map fst ([] @ es))"
    using v nested serde by (auto simp: Object serde_strings_def Option.these_def image_iff)
  then show ?thesis
    using depth parse_object_entries_reads [OF serde _ _ keys dist, of "length (json_text quote v @ r)" r]
      entries_text_length [of es quote True] entries_text_head_ok [OF _ serde, of es]
    by (cases "es = []")
      (simp_all add: Object parse_value_with_brackets parse_object_def Let_def skip_comma peek_byte_def [of "CHR ''}'' # r"]
        head_ok_append head_ok_peek)
qed

lemma parse_levels_reads:
  assumes "serde_strings unquote quote"
  shows "k \<le> MAX_JSON_DEPTH \<Longrightarrow> printable unquote k v \<Longrightarrow> reads_back (parse_levels unquote k) quote v"
proof (induction k arbitrary: v)
  case 0
  then obtain t where "v = Scalar t" "token_ok unquote t" by (cases v) auto
  then show ?case using token_head_ok [of unquote t] by (simp add: reads_back_def) (simp add: token_ok_def)
next
  case (Suc k)
  have nested: "reads_back (parse_levels unquote k) quote w" if "printable unquote k w" for w
    using Suc.IH [OF _ that] Suc.prems(1) by simp
  have depth: "MAX_JSON_DEPTH - Suc k < MAX_JSON_DEPTH"
    using Suc.prems(1) by simp
  show ?case
    using parse_value_with_reads [OF assms Suc.prems(2) nested depth] json_text_head_ok [OF Suc.prems(2)]
    by (simp add: reads_back_def)
qed

lemma parse_document_reads:
  assumes "serde_strings unquote quote" "printable unquote MAX_JSON_DEPTH v"
  shows "parse_document unquote (json_text quote v) = Some (Inr v)"
proof -
  have "reads_back (parse_levels unquote MAX_JSON_DEPTH) quote v"
    using assms by (intro parse_levels_reads) simp_all
  then have "parse_levels unquote MAX_JSON_DEPTH (json_text quote v @ []) = Some (Inr (v, []))"
    and "skip_whitespace (json_text quote v @ []) = json_text quote v @ []"
    by (auto simp: reads_back_def delim_def head_ok_append simp del: append_Nil2)
  then show ?thesis
    by (simp add: parse_document_def parse_value_def skip_whitespace_def)
qed

section \<open>Reserved keys\<close>

text \<open>All keys of a value, at every level.\<close>

fun json_keys :: "json_public_value \<Rightarrow> string list" and values_keys :: "json_public_value list \<Rightarrow> string list"
  and entries_keys :: "(string \<times> json_public_value) list \<Rightarrow> string list" where
  "json_keys (Scalar t) = []"
| "json_keys (Array vs) = values_keys vs"
| "json_keys (Object es) = entries_keys es"
| "values_keys [] = []"
| "values_keys (v # vs) = json_keys v @ values_keys vs"
| "entries_keys [] = []"
| "entries_keys ((k, v) # es) = k # json_keys v @ entries_keys es"

lemma validate_json_keys_exact:
  "validate_json_keys fs v =
     (if list_ex (\<lambda>k. is_reserved_public_key k fs) (json_keys v) then Inl ReservedPublicKey else Inr ())"
  "validate_json_entries fs es =
     (if list_ex (\<lambda>k. is_reserved_public_key k fs) (entries_keys es) then Inl ReservedPublicKey else Inr ())"
  "validate_json_values fs vs =
     (if list_ex (\<lambda>k. is_reserved_public_key k fs) (values_keys vs) then Inl ReservedPublicKey else Inr ())"
  by (induction fs v and fs es and fs vs
      rule: validate_json_keys_validate_json_entries_validate_json_values.induct) auto

lemma entries_keys_fst: "fst ` set es \<subseteq> set (entries_keys es)"
proof (induction es)
  case (Cons e es)
  then show ?case by (cases e) auto
qed simp

section \<open>The encoded JSON body\<close>

lemma write_json_object_fresh:
  defines "t \<equiv> \<lambda>quote es fs. json_text quote (Object (es @ map (field_entry quote) fs))"
  shows "write_json_object quote es fs \<lparr>encoded = [], exceeded = False\<rparr> = (res, w) \<Longrightarrow>
    (if length (t quote es fs) \<le> MAX_BODY_BYTES then res = Inr () \<and> encoded w = t quote es fs \<and> \<not> exceeded w
     else exceeded w)"
  using write_json_writes(3) [of quote es fs] unfolding writes_def t_def
  by (auto simp del: write_json_object.simps json_text.simps
      dest!: spec [of _ "\<lparr>encoded = [], exceeded = False\<rparr>"])

lemma encode_json_object_exact:
  "encode_json_object unquote quote body fs = Some (Inr out) \<longleftrightarrow>
     (\<exists>es. public_json unquote body = Some (Inr (Object es)) \<and>
        \<not> list_ex (\<lambda>k. is_reserved_public_key k fs) (entries_keys es) \<and>
        out = json_text quote (Object (es @ map (field_entry quote) fs)) \<and>
        length out \<le> MAX_BODY_BYTES \<and> utf8_valid out)"
proof (cases "\<exists>es. public_json unquote body = Some (Inr (Object es))")
  case True
  then obtain es where es: "public_json unquote body = Some (Inr (Object es))" by blast
  obtain res w where rw: "write_json_object quote es fs \<lparr>encoded = [], exceeded = False\<rparr> = (res, w)"
    by (cases "write_json_object quote es fs \<lparr>encoded = [], exceeded = False\<rparr>")
  show ?thesis
    using write_json_object_fresh [OF rw] es rw
    by (auto simp: encode_json_object_def validate_json_keys_exact(2)
        simp del: write_json_object.simps json_text.simps split: if_splits)
next
  case False
  then show ?thesis
    by (auto simp: encode_json_object_def split: option.splits sum.splits json_public_value.splits)
qed

lemma public_json_printable: "public_json unquote body = Some (Inr v) \<Longrightarrow> printable unquote MAX_JSON_DEPTH v"
  using parse_document_printable [of unquote body v]
  by (auto simp: public_json_def MAX_JSON_DEPTH_def numeral_eq_Suc split: if_splits)

lemma fields_printable:
  assumes serde: "serde_strings unquote quote" and fs: "fields_ok fs"
    and utf8: "\<forall>f \<in> set fs. utf8_valid (sf_value f)"
    and es: "printable unquote (Suc k) (Object es)" "\<not> list_ex (\<lambda>k. is_reserved_public_key k fs) (entries_keys es)"
  shows "printable unquote (Suc k) (Object (es @ map (field_entry quote) fs))"
proof -
  have names: "map fst (map (field_entry quote) fs) = map sf_name fs"
    by (simp add: field_entry_def)
  have "distinct (map sf_name fs)"
    using fs distinct_map [of "map to_ascii_lowercase" "map sf_name fs"] by (simp add: fields_ok_def ci_distinct_def)
  moreover have "fst e \<noteq> sf_name f" if "e \<in> set es" "f \<in> set fs" for e f
  proof
    assume "fst e = sf_name f"
    then have "is_reserved_public_key (fst e) fs"
      using that(2) unfolding is_reserved_public_key_def list_ex_iff by (metis eq_ignore_ascii_case_refl)
    moreover have "fst e \<in> set (entries_keys es)"
      using that(1) entries_keys_fst by blast
    ultimately show False
      using es(2) by (auto simp: list_ex_iff)
  qed
  moreover have "sf_name f \<in> Option.these (range unquote) \<and> token_ok unquote (concat (quote (sf_value f)))"
    if "f \<in> set fs" for f
  proof
    have "utf8_valid (sf_name f)"
      using fs that by (auto simp: fields_ok_def valid_field_name_utf8)
    then have "unquote (concat (quote (sf_name f))) = Some (sf_name f)"
      using serde by (simp add: serde_strings_def)
    then show "sf_name f \<in> Option.these (range unquote)"
      by (metis in_these_eq range_eqI)
    show "token_ok unquote (concat (quote (sf_value f)))"
      using serde utf8 that by (intro quoted_token_ok) auto
  qed
  ultimately show ?thesis
    using es(1) names by (auto simp: field_entry_def comp_def image_iff)
qed

section \<open>Nesting and duplicate keys\<close>

fun nesting :: "json_public_value \<Rightarrow> nat" and values_nesting :: "json_public_value list \<Rightarrow> nat"
  and entries_nesting :: "(string \<times> json_public_value) list \<Rightarrow> nat" where
  "nesting (Scalar t) = 0"
| "nesting (Array vs) = Suc (values_nesting vs)"
| "nesting (Object es) = Suc (entries_nesting es)"
| "values_nesting [] = 0"
| "values_nesting (v # vs) = max (nesting v) (values_nesting vs)"
| "entries_nesting [] = 0"
| "entries_nesting ((k, v) # es) = max (nesting v) (entries_nesting es)"

fun unique_keys :: "json_public_value \<Rightarrow> bool" and values_unique :: "json_public_value list \<Rightarrow> bool"
  and entries_unique :: "(string \<times> json_public_value) list \<Rightarrow> bool" where
  "unique_keys (Scalar t) = True"
| "unique_keys (Array vs) = values_unique vs"
| "unique_keys (Object es) = (distinct (map fst es) \<and> entries_unique es)"
| "values_unique [] = True"
| "values_unique (v # vs) = (unique_keys v \<and> values_unique vs)"
| "entries_unique [] = True"
| "entries_unique ((k, v) # es) = (unique_keys v \<and> entries_unique es)"

lemma nesting_lists:
  "(\<And>v. v \<in> set vs \<Longrightarrow> nesting v \<le> n \<and> unique_keys v) \<Longrightarrow> values_nesting vs \<le> n \<and> values_unique vs"
  "(\<And>e. e \<in> set es \<Longrightarrow> nesting (snd e) \<le> n \<and> unique_keys (snd e)) \<Longrightarrow> entries_nesting es \<le> n \<and> entries_unique es"
proof -
  show "(\<And>v. v \<in> set vs \<Longrightarrow> nesting v \<le> n \<and> unique_keys v) \<Longrightarrow> values_nesting vs \<le> n \<and> values_unique vs"
    by (induction vs) simp_all
  show "(\<And>e. e \<in> set es \<Longrightarrow> nesting (snd e) \<le> n \<and> unique_keys (snd e)) \<Longrightarrow> entries_nesting es \<le> n \<and> entries_unique es"
  proof (induction es)
    case (Cons e es)
    then show ?case
      using Cons.prems [of e] by (cases e) simp
  qed simp
qed

lemma printable_nesting: "printable unquote k v \<Longrightarrow> nesting v \<le> k \<and> unique_keys v"
proof (induction unquote k v rule: printable.induct)
  case (3 unquote k vs)
  then show ?case using nesting_lists(1) [of vs k] by simp
next
  case (5 unquote k es)
  then show ?case using nesting_lists(2) [of es k] by simp
qed simp_all

section \<open>A string codec for the examples\<close>

definition escape_char :: "char \<Rightarrow> string" where
  "escape_char c =
     (if c = CHR 0x22 \<or> c = CHR 0x5C then [CHR 0x5C, c]
      else if byte c \<le> 0x1F then [CHR 0x5C, CHR ''u'', CHR ''0'', CHR ''0'', HEX_UPPER ! (byte c div 16), HEX_UPPER ! (byte c mod 16)]
      else [c])"

definition quote_plain :: "string \<Rightarrow> string list" where
  "quote_plain s = [[CHR 0x22], concat (map escape_char s), [CHR 0x22]]"

fun unescape :: "string \<Rightarrow> string option" where
  "unescape [] = None"
| "unescape (c # cs) =
     (if c = CHR 0x22 then (if cs = [] then Some [] else None)
      else if c = CHR 0x5C then
        (case cs of
           [] \<Rightarrow> None
         | d # ds \<Rightarrow>
             if d = CHR 0x22 \<or> d = CHR 0x5C then map_option ((#) d) (unescape ds)
             else
               (case ds of
                  z # z' # h # l # r \<Rightarrow>
                    (case (hex_value h, hex_value l) of
                       (Some high, Some low) \<Rightarrow> map_option ((#) (hex_byte high low)) (unescape r)
                     | _ \<Rightarrow> None)
                | _ \<Rightarrow> None))
      else map_option ((#) c) (unescape cs))"

definition unquote_plain :: "string \<Rightarrow> string option" where
  "unquote_plain t =
     (if t \<noteq> [] \<and> hd t = CHR 0x22
      then (case unescape (tl t) of Some k \<Rightarrow> if utf8_valid k then Some k else None | None \<Rightarrow> None)
      else None)"

lemma unescape_escape_char: "unescape (escape_char c @ s) = map_option ((#) c) (unescape s)"
  by (auto simp: escape_char_def hex_digit_facts)

lemma unescape_escape: "unescape (concat (map escape_char k) @ [CHR 0x22]) = Some k"
  by (induction k) (simp_all add: unescape_escape_char)

lemma HEX_UPPER_plain:
  assumes "n < 16"
  shows "HEX_UPPER ! n \<noteq> CHR 0x22" "HEX_UPPER ! n \<noteq> CHR 0x5C" "\<not> byte (HEX_UPPER ! n) \<le> 0x1F"
proof -
  have "length HEX_UPPER = 16"
    by (simp add: HEX_UPPER_def)
  then have "HEX_UPPER ! n \<in> set HEX_UPPER"
    using assms by (intro nth_mem) simp
  moreover have "\<forall>x \<in> set HEX_UPPER. x \<noteq> CHR 0x22 \<and> x \<noteq> CHR 0x5C \<and> \<not> byte x \<le> 0x1F"
    by (simp add: HEX_UPPER_def)
  ultimately show "HEX_UPPER ! n \<noteq> CHR 0x22" "HEX_UPPER ! n \<noteq> CHR 0x5C" "\<not> byte (HEX_UPPER ! n) \<le> 0x1F"
    by blast+
qed

lemma scan_escape_char: "scan_string (escape_char c @ s) = scan_string s"
  by (auto simp: escape_char_def HEX_UPPER_plain)

lemma scan_escape: "scan_string (concat (map escape_char k) @ CHR 0x22 # r) = Some r"
  by (induction k) (simp_all add: scan_escape_char)

lemma serde_strings_plain: "serde_strings unquote_plain quote_plain"
  unfolding serde_strings_def
proof (intro conjI allI impI)
  show "unquote_plain t = Some k \<Longrightarrow> utf8_valid k" for t k
    by (auto simp: unquote_plain_def split: if_splits option.splits)
  show "utf8_valid k \<Longrightarrow> unquote_plain (concat (quote_plain k)) = Some k" for k
    by (simp add: unquote_plain_def quote_plain_def unescape_escape)
  show "\<exists>b. concat (quote_plain k) = CHR 0x22 # b \<and> (\<forall>r. scan_string (b @ r) = Some r)" for k
    by (simp add: quote_plain_def scan_escape)
qed

section \<open>Examples\<close>

definition example_field :: secret_field where
  "example_field = \<lparr>sf_name = ''token'', sf_value = ''s&x''\<rparr>"

definition example_body :: string where
  "example_body = [CHR ''{'', CHR 0x22, CHR ''a'', CHR 0x22, CHR '':'', CHR ''1'', CHR ''}'']"

lemmas token_defs = parse_string_token_def slice_token_def at_boundary_def is_cont_def skip_whitespace_def
  is_json_space_def peek_byte_def parse_number_token_def number_integer_def number_fraction_def
  number_exponent_def peek_digit_def skip_digits_def ascii_class_defs unquote_plain_def utf8_valid_ascii

lemma example_field_valid: "validate_fields [example_field] = Inr ()" "utf8_valid (sf_value example_field)"
  by (simp_all add: validate_fields_def MAX_FIELDS_def example_field_def is_valid_field_name_def
      MAX_FIELD_NAME_BYTES_def ascii_class_defs name_rest_char_def MAX_BODY_BYTES_def utf8_valid_ascii)

lemma example_parse_form: "parse_form ''a=b%20c'' [example_field] = Inr [(''a'', ''b c'')]"
  by (simp add: parse_form_def example_field_def split_pair_def decode_form_component_def
      is_reserved_public_key_def RESERVED_PUBLIC_KEYS_def eq_ignore_ascii_case_def hex_value_def hex_byte_def
      utf8_valid_ascii is_ascii_def char_of_def bit_0)

lemma example_form:
  "encode_injected_body unquote quote ''a=b%20c'' Form [example_field] = Some (Inr ''a=b%20c&token=s%26x'')"
proof -
  have "form_join ([(''a'', ''b c'')] @ fields_pairs [example_field]) = ''a=b%20c&token=s%26x''"
    by (simp add: fields_pairs_def example_field_def form_segment_def form_text_def form_byte_def
        is_unreserved_def ascii_class_defs percent_encoded_def HEX_UPPER_def)
  then show ?thesis
    by (simp add: encode_injected_body_def example_field_valid encode_form_exact example_parse_form MAX_BODY_BYTES_def)
qed

lemma example_number:
  "parse_value_with unquote pv depth (CHR ''1'' # CHR ''}'' # r) = Some (Inr (Scalar ''1'', CHR ''}'' # r))"
  by (simp add: parse_value_with_number token_defs)

lemma example_document: "parse_document unquote_plain example_body = Some (Inr (Object [(''a'', Scalar ''1'')]))"
  by (simp add: parse_document_def parse_value_def MAX_JSON_DEPTH_def example_body_def numeral_eq_Suc token_defs
      parse_value_with_brackets parse_object_def parse_object_entries.simps example_number)

definition example_out :: string where
  "example_out = json_text quote_plain (Object ([(''a'', Scalar ''1'')] @ map (field_entry quote_plain) [example_field]))"

lemma example_json:
  "encode_injected_body unquote_plain quote_plain example_body JsonObject [example_field] = Some (Inr example_out)"
proof -
  have "length example_out \<le> MAX_BODY_BYTES" "utf8_valid example_out"
    by (simp_all add: example_out_def MAX_BODY_BYTES_def field_entry_def example_field_def quote_plain_def
        escape_char_def comma_def utf8_valid_ascii is_ascii_def)
  moreover have "public_json unquote_plain example_body = Some (Inr (Object [(''a'', Scalar ''1'')]))"
    by (simp add: public_json_def example_document) (simp add: example_body_def)
  moreover have "\<not> list_ex (\<lambda>k. is_reserved_public_key k [example_field]) (entries_keys [(''a'', Scalar ''1'')])"
    by (simp add: is_reserved_public_key_def RESERVED_PUBLIC_KEYS_def eq_ignore_ascii_case_def example_field_def)
  ultimately have "encode_json_object unquote_plain quote_plain example_body [example_field] = Some (Inr example_out)"
    unfolding encode_json_object_exact example_out_def by blast
  then show ?thesis
    by (simp add: encode_injected_body_def example_field_valid) (simp add: example_body_def MAX_BODY_BYTES_def)
qed

section \<open>Properties\<close>

text \<open>
  C6. Injection into a form. When \<open>encode_injected_body\<close> accepts a form body, the body it
  returns is at most \<open>MAX_BODY_BYTES\<close> long, and a receiver that decodes it reads exactly the
  pairs of the public body, in order and unchanged, followed by the secret fields. No two
  names of the result are equal up to ASCII case, and no public name is reserved: a caller
  of the public body can neither shadow a secret nor supply one.
\<close>

theorem form_injection:
  assumes "encode_injected_body unquote quote body Form fs = Some (Inr out)"
    and "\<forall>f \<in> set fs. utf8_valid (sf_value f)"
  shows "length out \<le> MAX_BODY_BYTES \<and>
    (\<exists>ps. form_pairs body = Inr ps \<and> form_pairs out = Inr (ps @ fields_pairs fs) \<and>
       ci_distinct (map fst (ps @ fields_pairs fs)) \<and>
       list_all (\<lambda>p. \<not> is_reserved_public_key (fst p) fs) ps)"
proof -
  have enc: "encode_form body fs = Inr out" and fs: "fields_ok fs"
    using assms(1) by (auto simp: encode_injected_body_def validate_fields_exact split: if_splits sum.splits)
  obtain ps where "form_pairs body = Inr ps" "form_pairs out = Inr (ps @ fields_pairs fs)"
    "public_pairs_ok fs ps" "length out \<le> MAX_BODY_BYTES"
    using encode_form_reads_back [OF enc fs] assms(2) by blast
  then show ?thesis
    using public_fields_ci_distinct [OF _ fs] by (auto simp: public_pairs_ok_def list_all_iff)
qed

theorem form_injection_witness:
  "\<exists>ps. form_pairs ''a=b%20c'' = Inr ps \<and> form_pairs ''a=b%20c&token=s%26x'' = Inr (ps @ [(''token'', ''s&x'')])"
  using form_injection [OF example_form [of unquote_plain quote_plain]]
  by (auto simp: example_field_valid) (auto simp: fields_pairs_def example_field_def)

text \<open>
  C21. Injection into a JSON object. When \<open>encode_injected_body\<close> accepts a JSON body, the
  result is UTF-8 and at most \<open>MAX_BODY_BYTES\<close> long, and reading it with the same strict
  parser gives the object of the public body with one entry per secret field appended: the
  public entries are unchanged at every level, no key of them is reserved or the name of a
  secret field, and the keys of the result are distinct.
\<close>

theorem json_injection:
  assumes "encode_injected_body unquote quote body JsonObject fs = Some (Inr out)"
    and "\<forall>f \<in> set fs. utf8_valid (sf_value f)" and "serde_strings unquote quote"
  shows "length out \<le> MAX_BODY_BYTES \<and> utf8_valid out \<and>
    (\<exists>es. public_json unquote body = Some (Inr (Object es)) \<and>
       parse_document unquote out = Some (Inr (Object (es @ map (field_entry quote) fs))) \<and>
       list_all (\<lambda>k. \<not> is_reserved_public_key k fs) (entries_keys es) \<and>
       unique_keys (Object (es @ map (field_entry quote) fs)))"
proof -
  have enc: "encode_json_object unquote quote body fs = Some (Inr out)" and fs: "fields_ok fs"
    using assms(1) by (auto simp: encode_injected_body_def validate_fields_exact split: if_splits sum.splits)
  obtain es where es: "public_json unquote body = Some (Inr (Object es))"
    "\<not> list_ex (\<lambda>k. is_reserved_public_key k fs) (entries_keys es)"
    "out = json_text quote (Object (es @ map (field_entry quote) fs))" "length out \<le> MAX_BODY_BYTES" "utf8_valid out"
    using enc unfolding encode_json_object_exact by blast
  have depth: "MAX_JSON_DEPTH = Suc 7" by (simp add: MAX_JSON_DEPTH_def)
  have ok: "printable unquote MAX_JSON_DEPTH (Object (es @ map (field_entry quote) fs))"
    using public_json_printable [OF es(1)] es(2) assms(2,3) fs unfolding depth by (intro fields_printable)
  show ?thesis
    using es printable_nesting [OF ok] parse_document_reads [OF assms(3) ok]
    by (auto simp: list_all_iff list_ex_iff)
qed

theorem json_injection_witness:
  "\<exists>es. public_json unquote_plain example_body = Some (Inr (Object es)) \<and>
     parse_document unquote_plain example_out = Some (Inr (Object (es @ [field_entry quote_plain example_field])))"
  using json_injection [OF example_json _ serde_strings_plain] by (auto simp: example_field_valid)

text \<open>
  C32. The parser and the encoder return on every input: the fuel of the loops, the length of
  the text from the opening bracket on, never runs out, for any behaviour of the string codec.
\<close>

theorem encoder_terminates:
  "parse_document unquote input \<noteq> None \<and> encode_injected_body unquote quote body encoding fs \<noteq> None"
  using parse_document_total encode_json_object_total
  by (auto simp: encode_injected_body_def split: sum.split request_body_encoding.split)

text \<open>
  C31. A document that the parser accepts nests at most \<open>MAX_JSON_DEPTH\<close> levels, and no object
  of it, at any level, has two entries with the same key.
\<close>

theorem parser_is_strict:
  "parse_document unquote input = Some (Inr v) \<Longrightarrow> nesting v \<le> MAX_JSON_DEPTH \<and> unique_keys v"
  using parse_document_printable printable_nesting by blast

theorem parser_is_strict_witness:
  "parse_document unquote_plain example_body = Some (Inr (Object [(''a'', Scalar ''1'')])) \<and>
   nesting (Object [(''a'', Scalar ''1'')]) \<le> MAX_JSON_DEPTH \<and> unique_keys (Object [(''a'', Scalar ''1'')])"
  using parser_is_strict [OF example_document] example_document by blast

end
