(* ===== verification/Domain_Values.thy ===== *)
theory Domain_Values
  imports Json_Value
begin

unbundle bit_operations_syntax

section \<open>Shared domain contracts (\<open>domain.rs\<close>, \<open>sqlite_storage_rows.rs\<close>)\<close>

text \<open>
  The helpers every gateway uses: the request hash, the conversions between JSON and VM
  values, the durable ids, the message content blocks, and the unwrapping of storage rows.

  A VM value is the list of its entries where it is a map; a float is kept as its bits.
  Parameters: \<open>float_of\<close> is the conversion of a \<open>u64\<close> to \<open>f64\<close>, \<open>lossy\<close> is
  \<open>String::from_utf8_lossy\<close>, \<open>display\<close> is the compact serialisation of \<open>serde_json\<close> and
  \<open>from_value\<close>, \<open>to_value\<close> are the derived (de)serialisers of a content block.
\<close>

subsection \<open>The request hash\<close>

definition fnv_step :: "char \<Rightarrow> u64 \<Rightarrow> u64" where
  "fnv_step c hash = (hash XOR of_char c) * 0x100000001b3"

definition fnv1a64 :: "string \<Rightarrow> u64" where
  "fnv1a64 bytes = fold fnv_step bytes 0xcbf29ce484222325"

subsection \<open>JSON and VM values\<close>

datatype vm_value =
    VNull
  | VInt u64
  | VFloat u64
  | VBool bool
  | VString string
  | VBytes string
  | VArray "vm_value list"
  | VMap "(vm_value \<times> vm_value) list"
  | VCallable

text \<open>\<open>Number::as_i64\<close> and \<open>as_f64\<close>; an \<open>i64\<close> is kept as its 64 bits.\<close>

fun number_as_i64 :: "json_number \<Rightarrow> u64 option" where
  "number_as_i64 (PosInt n) = (if n \<le> 0x7FFFFFFFFFFFFFFF then Some n else None)"
| "number_as_i64 (NegInt n) = Some n"
| "number_as_i64 (Float b) = None"

fun number_as_f64 :: "(u64 \<Rightarrow> u64) \<Rightarrow> json_number \<Rightarrow> u64 option" where
  "number_as_f64 float_of (PosInt n) = Some (float_of n)"
| "number_as_f64 float_of (NegInt n) = Some (float_of n)"
| "number_as_f64 float_of (Float b) = Some b"

fun json_to_vm_value :: "(u64 \<Rightarrow> u64) \<Rightarrow> json \<Rightarrow> vm_value" where
  "json_to_vm_value float_of JNull = VNull"
| "json_to_vm_value float_of (JBool b) = VBool b"
| "json_to_vm_value float_of (JNumber n) =
     (case number_as_i64 n of
        Some i \<Rightarrow> VInt i
      | None \<Rightarrow> (case number_as_f64 float_of n of Some b \<Rightarrow> VFloat b | None \<Rightarrow> VNull))"
| "json_to_vm_value float_of (JString s) = VString s"
| "json_to_vm_value float_of (JArray vs) = VArray (map (json_to_vm_value float_of) vs)"
| "json_to_vm_value float_of (JObject m) = VMap (map (\<lambda>(k, v). (VString k, json_to_vm_value float_of v)) m)"

text \<open>\<open>Number::from_f64\<close> refuses infinities and NaN: all exponent bits set.\<close>

definition is_finite :: "u64 \<Rightarrow> bool" where
  "is_finite bits \<longleftrightarrow> drop_bit 52 bits AND 0x7FF \<noteq> 0x7FF"

definition json_of_i64 :: "u64 \<Rightarrow> json" where
  "json_of_i64 i = JNumber (if i \<le> 0x7FFFFFFFFFFFFFFF then PosInt i else NegInt i)"

definition json_of_f64 :: "u64 \<Rightarrow> json" where
  "json_of_f64 bits = (if is_finite bits then JNumber (Float bits) else JNull)"

fun vm_value_to_json :: "(string \<Rightarrow> string) \<Rightarrow> (json \<Rightarrow> string) \<Rightarrow> vm_value \<Rightarrow> json" where
  "vm_value_to_json lossy display VNull = JNull"
| "vm_value_to_json lossy display (VInt i) = json_of_i64 i"
| "vm_value_to_json lossy display (VFloat b) = json_of_f64 b"
| "vm_value_to_json lossy display (VBool b) = JBool b"
| "vm_value_to_json lossy display (VString s) = JString s"
| "vm_value_to_json lossy display (VBytes s) = JString (lossy s)"
| "vm_value_to_json lossy display (VArray vs) = JArray (map (vm_value_to_json lossy display) vs)"
| "vm_value_to_json lossy display (VMap es) =
     jobject (map (\<lambda>(k, v).
       ((case k of VString s \<Rightarrow> s | _ \<Rightarrow> display (vm_value_to_json lossy display k)),
        vm_value_to_json lossy display v)) es)"
| "vm_value_to_json lossy display VCallable = JString ''<callable>''"

fun input_text :: "(json \<Rightarrow> string) \<Rightarrow> json \<Rightarrow> string" where
  "input_text display (JString text) = text"
| "input_text display JNull = []"
| "input_text display other = display other"

subsection \<open>Truncation and durable ids\<close>

definition MAX_DURABLE_TEXT_CHARS :: nat where "MAX_DURABLE_TEXT_CHARS = 65536"
definition MAX_DURABLE_ID_BYTES :: nat where "MAX_DURABLE_ID_BYTES = 128"

text \<open>The byte index of the \<open>n\<close>th character, \<open>char_indices().nth(n)\<close>.\<close>

definition char_index :: "string \<Rightarrow> nat \<Rightarrow> nat option" where
  "char_index s n = (if n < length (chars s) then Some (length (concat (take n (chars s)))) else None)"

definition truncate_for_log :: "string \<Rightarrow> nat \<Rightarrow> string" where
  "truncate_for_log message max_chars =
     (case char_index message max_chars of Some index \<Rightarrow> take index message | None \<Rightarrow> message)"

definition truncate_utf8_chars :: "string \<Rightarrow> nat \<Rightarrow> string \<times> bool" where
  "truncate_utf8_chars text max_chars =
     (case char_index text max_chars of Some index \<Rightarrow> (take index text, True) | None \<Rightarrow> (text, False))"

definition provider_pending_may_retry :: "bool \<Rightarrow> bool \<Rightarrow> bool \<Rightarrow> bool" where
  "provider_pending_may_retry has_durable_response request_is_idempotent has_effect \<longleftrightarrow>
     \<not> has_durable_response \<and> request_is_idempotent \<and> \<not> has_effect"

fun scan_chars :: "nat \<Rightarrow> string list \<Rightarrow> string" where
  "scan_chars bytes [] = []"
| "scan_chars bytes (ch # chs) =
     (if MAX_DURABLE_ID_BYTES < bytes + length ch then [] else ch @ scan_chars (bytes + length ch) chs)"

definition bound_durable_id :: "string \<Rightarrow> string" where
  "bound_durable_id i = (if length i \<le> MAX_DURABLE_ID_BYTES then i else scan_chars 0 (chars i))"

definition durable_tool_event_id :: "string \<Rightarrow> string \<Rightarrow> string \<Rightarrow> string" where
  "durable_tool_event_id run_id tool_call_id event_type =
     bound_durable_id (run_id @ '':tool:'' @ tool_call_id @ '':'' @ event_type)"

definition durable_provider_event_id :: "string \<Rightarrow> u64 \<Rightarrow> string \<Rightarrow> string" where
  "durable_provider_event_id run_id turn event_type =
     bound_durable_id (run_id @ '':turn:'' @ show_nat (unat turn) @ '':'' @ event_type)"

definition durable_message_id :: "string \<Rightarrow> string \<Rightarrow> string \<Rightarrow> string" where
  "durable_message_id run_id kind key = bound_durable_id (run_id @ '':'' @ kind @ '':'' @ key)"

subsection \<open>Message content blocks\<close>

record llm_content_block =
  block_type :: string
  bl_text :: "string option"
  bl_tool_call_id :: "string option"
  bl_name :: "string option"
  arguments_json :: "string option"
  arguments :: "json option"
  bl_content :: "string option"
  is_error :: "bool option"
  bl_result :: "json option"
  bl_error :: "json option"
  artifact :: "json option"
  bl_truncated :: "bool option"

definition default_block :: llm_content_block where
  "default_block = \<lparr>block_type = [], bl_text = None, bl_tool_call_id = None, bl_name = None, arguments_json = None,
     arguments = None, bl_content = None, is_error = None, bl_result = None, bl_error = None, artifact = None,
     bl_truncated = None\<rparr>"

definition then_some_true :: "bool \<Rightarrow> bool option" where
  "then_some_true b = (if b then Some True else None)"

definition text_block :: "string \<Rightarrow> llm_content_block" where
  "text_block text =
     (let (t, truncated) = truncate_utf8_chars text MAX_DURABLE_TEXT_CHARS in
      default_block\<lparr>block_type := ''text'', bl_text := Some t, bl_truncated := then_some_true truncated\<rparr>)"

text \<open>The steps that \<open>decode_one_block\<close> and \<open>bound_content_block\<close> share.\<close>

definition fold_arguments :: "(json \<Rightarrow> string) \<Rightarrow> llm_content_block \<Rightarrow> llm_content_block" where
  "fold_arguments display b =
     (case arguments_json b of
        None \<Rightarrow>
          (case arguments b of
             None \<Rightarrow> b
           | Some a \<Rightarrow> b\<lparr>arguments := None, arguments_json := Some (display a)\<rparr>)
      | Some _ \<Rightarrow> b\<lparr>arguments := None\<rparr>)"

definition first_artifact :: "llm_content_block \<Rightarrow> llm_content_block" where
  "first_artifact b =
     (case artifact b of
        Some (JArray items) \<Rightarrow> b\<lparr>artifact := (case items of [] \<Rightarrow> None | x # _ \<Rightarrow> Some x)\<rparr>
      | _ \<Rightarrow> b)"

definition decode_one_block ::
  "(json \<Rightarrow> string) \<Rightarrow> (json \<Rightarrow> llm_content_block option) \<Rightarrow> json \<Rightarrow> llm_content_block" where
  "decode_one_block display from_value v =
     (let b = (case from_value v of Some b \<Rightarrow> b | None \<Rightarrow> text_block (display v));
          b = (if bl_truncated b = Some False then b\<lparr>bl_truncated := None\<rparr> else b)
      in first_artifact (fold_arguments display b))"

fun decode_message_blocks ::
  "(json \<Rightarrow> string) \<Rightarrow> (json \<Rightarrow> llm_content_block option) \<Rightarrow> json \<Rightarrow> llm_content_block list" where
  "decode_message_blocks display from_value (JArray items) = map (decode_one_block display from_value) items"
| "decode_message_blocks display from_value (JString text) = [text_block text]"
| "decode_message_blocks display from_value (JObject m) =
     (if Option.bind (map_of m ''type'') as_str \<noteq> None then [decode_one_block display from_value (JObject m)]
      else
        (case map_of m ''text'' of
           Some text \<Rightarrow> [text_block (case text of JString s \<Rightarrow> s | other \<Rightarrow> display other)]
         | None \<Rightarrow> [text_block (display (JObject m))]))"
| "decode_message_blocks display from_value JNull = []"
| "decode_message_blocks display from_value other = [text_block (display other)]"

definition decode_message_content ::
  "(json \<Rightarrow> string) \<Rightarrow> (json \<Rightarrow> llm_content_block option) \<Rightarrow> (llm_content_block \<Rightarrow> json) \<Rightarrow> json \<Rightarrow> json" where
  "decode_message_content display from_value to_value v =
     JArray (map to_value (decode_message_blocks display from_value v))"

definition bound_structured_json :: "(json \<Rightarrow> string) \<Rightarrow> json \<Rightarrow> bool \<Rightarrow> json \<times> bool" where
  "bound_structured_json display v retain_error_code =
     (let original_bytes = length (display v) in
      if original_bytes \<le> MAX_DURABLE_TEXT_CHARS then (v, False)
      else
        (let redacted = [(''truncated'', JBool True), (''redacted'', JBool True),
                         (''original_bytes'', JNumber (PosInt (of_nat original_bytes)))];
             code = (if retain_error_code then jget ''code'' v else None)
         in (jobject (redacted @ (case code of Some c \<Rightarrow> [(''code'', c)] | None \<Rightarrow> [])), True)))"

definition bound_text :: "string option \<Rightarrow> string option \<times> bool" where
  "bound_text t =
     (case t of
        None \<Rightarrow> (None, False)
      | Some s \<Rightarrow> (let (s', cut) = truncate_utf8_chars s MAX_DURABLE_TEXT_CHARS in (Some s', cut)))"

definition bound_json :: "(json \<Rightarrow> string) \<Rightarrow> bool \<Rightarrow> json option \<Rightarrow> json option \<times> bool" where
  "bound_json display retain v =
     (case v of
        None \<Rightarrow> (None, False)
      | Some j \<Rightarrow> (let (j', cut) = bound_structured_json display j retain in (Some j', cut)))"

definition bound_content_block :: "(json \<Rightarrow> string) \<Rightarrow> llm_content_block \<Rightarrow> llm_content_block" where
  "bound_content_block display block =
     (let truncated = (bl_truncated block = Some True);
          (text, cut1) = bound_text (bl_text block);
          (content, cut2) = bound_text (bl_content block);
          b = fold_arguments display (block\<lparr>bl_text := text, bl_content := content\<rparr>);
          (args, cut3) = bound_text (arguments_json b);
          (res, cut4) = bound_json display False (bl_result b);
          (err, cut5) = bound_json display True (bl_error b);
          b = first_artifact (b\<lparr>arguments_json := args, bl_result := res, bl_error := err\<rparr>)
      in b\<lparr>bl_truncated := then_some_true (truncated \<or> cut1 \<or> cut2 \<or> cut3 \<or> cut4 \<or> cut5)\<rparr>)"

definition encode_message_content ::
  "(json \<Rightarrow> string) \<Rightarrow> (llm_content_block \<Rightarrow> json) \<Rightarrow> llm_content_block list \<Rightarrow> json" where
  "encode_message_content display to_value blocks = JArray (map (to_value \<circ> bound_content_block display) blocks)"

subsection \<open>Storage rows\<close>

fun result_map :: "('a \<Rightarrow> ('e, 'b) result) \<Rightarrow> 'a list \<Rightarrow> ('e, 'b list) result" where
  "result_map f [] = Inr []"
| "result_map f (x # xs) =
     (case f x of
        Inl e \<Rightarrow> Inl e
      | Inr y \<Rightarrow> (case result_map f xs of Inl e \<Rightarrow> Inl e | Inr ys \<Rightarrow> Inr (y # ys)))"

definition or_null :: "json option \<Rightarrow> json" where
  "or_null v = (case v of Some j \<Rightarrow> j | None \<Rightarrow> JNull)"

definition sqlite_storage_cell :: "json \<Rightarrow> (string, json) result" where
  "sqlite_storage_cell v =
     (case as_object v of
        None \<Rightarrow> Inr v
      | Some obj \<Rightarrow>
          (case Option.bind (map_of obj ''kind'') as_str of
             None \<Rightarrow> Inr v
           | Some kind \<Rightarrow>
               Inr (if kind = ''int'' then or_null (map_of obj ''int_value'')
                    else if kind = ''float'' then or_null (map_of obj ''float_value'')
                    else if kind = ''text'' then or_null (map_of obj ''text_value'')
                    else if kind = ''blob'' then or_null (map_of obj ''blob_value'')
                    else if kind = ''null'' then JNull
                    else v)))"

definition sqlite_storage_row :: "json \<Rightarrow> (string, json list) result" where
  "sqlite_storage_row row =
     (case Option.bind (jget ''cells'' row) as_array of
        Some cells \<Rightarrow> result_map sqlite_storage_cell cells
      | None \<Rightarrow>
          (case as_array row of
             None \<Rightarrow> Inl ''storage row is not an array or SqliteRow''
           | Some arr \<Rightarrow> result_map sqlite_storage_cell arr))"

definition sqlite_storage_row_list :: "json \<Rightarrow> (string, json list list) result" where
  "sqlite_storage_row_list v =
     (case as_array v of
        None \<Rightarrow> Inl ''storage rows value is not an array''
      | Some rows \<Rightarrow> result_map sqlite_storage_row rows)"

definition sqlite_storage_rows :: "json \<Rightarrow> (string, json list list) result" where
  "sqlite_storage_rows data =
     (case jget ''rows'' data of
        Some rows \<Rightarrow> sqlite_storage_row_list rows
      | None \<Rightarrow> if as_array data \<noteq> None then sqlite_storage_row_list data else Inl ''storage result omitted rows'')"

definition sqlite_storage_first_row :: "json \<Rightarrow> json list option" where
  "sqlite_storage_first_row data =
     (case sqlite_storage_rows data of Inr (r # _) \<Rightarrow> Some r | _ \<Rightarrow> None)"

section \<open>Round trip of JSON through the VM\<close>

text \<open>
  \<open>vm_exact v\<close>: every integer of \<open>v\<close> is an \<open>i64\<close> in its canonical representation, every float
  is finite and every object is well formed.
\<close>

fun number_exact :: "json_number \<Rightarrow> bool" where
  "number_exact (PosInt n) = (n \<le> 0x7FFFFFFFFFFFFFFF)"
| "number_exact (NegInt n) = (\<not> n \<le> 0x7FFFFFFFFFFFFFFF)"
| "number_exact (Float b) = is_finite b"

fun vm_exact :: "json \<Rightarrow> bool" where
  "vm_exact (JNumber n) = number_exact n"
| "vm_exact (JArray vs) = list_all vm_exact vs"
| "vm_exact (JObject m) = (sorted_keys m \<and> list_all (\<lambda>kv. vm_exact (snd kv)) m)"
| "vm_exact _ = True"

lemma jinsert_last: "\<forall>k' \<in> set (map fst m). k' < k \<Longrightarrow> jinsert k v m = m @ [(k, v)]"
proof (induction m)
  case (Cons a m)
  then show ?case by (cases a) (auto simp: not_less_iff_gr_or_eq)
qed simp

lemma fold_jinsert_sorted: "sorted_keys (xs @ ys) \<Longrightarrow> fold (\<lambda>(k, v). jinsert k v) ys xs = xs @ ys"
proof (induction ys arbitrary: xs)
  case (Cons y ys)
  have "\<forall>k' \<in> set (map fst xs). k' < fst y"
    using Cons.prems by (auto simp: sorted_keys_def sorted_wrt_append)
  then have "jinsert (fst y) (snd y) xs = xs @ [y]"
    by (simp add: jinsert_last)
  then show ?case
    using Cons.IH [of "xs @ [y]"] Cons.prems by (simp add: case_prod_beta)
qed simp

lemma jobject_sorted_id: "sorted_keys m \<Longrightarrow> jobject m = JObject m"
  using fold_jinsert_sorted [of "[]" m] by (simp add: jobject_def)

lemma number_roundtrip:
  "number_exact n \<Longrightarrow> vm_value_to_json lossy display (json_to_vm_value float_of (JNumber n)) = JNumber n"
  by (cases n) (simp_all add: json_of_i64_def json_of_f64_def)

lemma vm_roundtrip: "vm_exact v \<Longrightarrow> vm_value_to_json lossy display (json_to_vm_value float_of v) = v"
proof (induction float_of v rule: json_to_vm_value.induct)
  case (3 float_of n)
  then show ?case using number_roundtrip by simp
next
  case (5 float_of vs)
  then show ?case by (auto simp: list_all_iff intro: map_idI)
next
  case (6 float_of m)
  have "map (\<lambda>kv. (fst kv, vm_value_to_json lossy display (json_to_vm_value float_of (snd kv)))) m = m"
    using 6 by (auto simp: list_all_iff intro!: map_idI)
  then show ?case
    using 6(2) by (simp add: case_prod_beta comp_def jobject_sorted_id)
qed simp_all

section \<open>Durable ids\<close>

lemma scan_chars_length: "bytes \<le> MAX_DURABLE_ID_BYTES \<Longrightarrow> bytes + length (scan_chars bytes chs) \<le> MAX_DURABLE_ID_BYTES"
  by (induction bytes chs rule: scan_chars.induct) (auto simp: add.assoc)

lemma scan_chars_full:
  "MAX_DURABLE_ID_BYTES \<le> bytes + length (concat chs) \<Longrightarrow> bytes \<le> MAX_DURABLE_ID_BYTES \<Longrightarrow>
   list_all (\<lambda>ch. ch \<noteq> []) chs' \<Longrightarrow> scan_chars bytes (chs @ chs') = scan_chars bytes chs"
proof (induction bytes chs rule: scan_chars.induct)
  case (1 bytes)
  then show ?case by (cases chs') auto
qed (auto simp: add.assoc)

lemma scan_chars_all: "bytes + length (concat chs) \<le> MAX_DURABLE_ID_BYTES \<Longrightarrow> scan_chars bytes chs = concat chs"
  by (induction bytes chs rule: scan_chars.induct) auto

lemma bound_durable_id_scan: "bound_durable_id i = scan_chars 0 (chars i)"
  using scan_chars_all [of 0 "chars i"] by (auto simp: bound_durable_id_def)

text \<open>An id whose first 128 bytes are fixed does not depend on what follows them.\<close>

lemma bound_durable_id_prefix:
  assumes "MAX_DURABLE_ID_BYTES \<le> length p" and "s = [] \<or> \<not> is_cont (hd s)"
  shows "bound_durable_id (p @ s) = bound_durable_id p"
proof -
  have "list_all (\<lambda>ch. ch \<noteq> []) (chars s)"
    using chars_nonempty by (auto simp: list_all_iff)
  then show ?thesis
    using scan_chars_full [of 0 "chars p" "chars s"] assms
    by (simp add: bound_durable_id_scan chars_append)
qed

lemma append_last_sep:
  fixes a b t u :: string
  assumes "a @ c # t = b @ c # u" "c \<notin> set t" "c \<notin> set u"
  shows "a = b \<and> t = u"
proof -
  have eq: "rev t @ c # rev a = rev u @ c # rev b"
    using arg_cong [OF assms(1), of rev] by simp
  have "split_once c (rev t @ c # rev a) = Some (rev t, rev a)"
    by (rule split_once_append) (use assms(2) in simp)
  moreover have "split_once c (rev u @ c # rev b) = Some (rev u, rev b)"
    by (rule split_once_append) (use assms(3) in simp)
  ultimately have "(rev t, rev a) = (rev u, rev b)"
    unfolding eq by (simp only: option.inject)
  then show ?thesis by simp
qed

section \<open>Content blocks\<close>

lemma chars_take_index:
  assumes "char_index s n = Some i"
  shows "take i s = concat (take n (chars s))"
proof -
  have "take i (concat (take n (chars s)) @ concat (drop n (chars s))) = concat (take n (chars s))"
    using assms by (simp add: char_index_def split: if_splits)
  then show ?thesis
    by (simp flip: concat_append)
qed

lemma truncate_utf8_chars_exact:
  "truncate_utf8_chars s n = (concat (take n (chars s)), n < length (chars s))"
  by (auto simp: truncate_utf8_chars_def chars_take_index split: option.split)
    (simp_all add: char_index_def split: if_splits)

lemma chars_take: "chars (concat (take n (chars s))) = take n (chars s)"
proof (induction s arbitrary: n rule: chars.induct)
  case (2 c cs)
  show ?case
  proof (cases n)
    case (Suc m)
    let ?y = "concat (take m (chars (dropWhile is_cont cs)))"
    have "dropWhile is_cont (takeWhile is_cont cs) = []"
      by (auto simp: dropWhile_eq_Nil_conv dest: set_takeWhileD)
    then have group: "chars (c # takeWhile is_cont cs) = [c # takeWhile is_cont cs]"
      by simp
    have "?y = [] \<or> \<not> is_cont (hd ?y)"
    proof (cases "dropWhile is_cont cs")
      case (Cons d ds)
      then have "\<not> is_cont d" using hd_dropWhile [of is_cont cs] by auto
      then show ?thesis unfolding Cons by (cases m) simp_all
    next
      case Nil
      show ?thesis unfolding Nil by simp
    qed
    then have "chars ((c # takeWhile is_cont cs) @ ?y) = [c # takeWhile is_cont cs] @ chars ?y"
      by (simp only: chars_append group)
    then show ?thesis
      using 2 [of m] Suc by simp
  qed simp
qed simp

definition text_bounded :: "string option \<Rightarrow> bool" where
  "text_bounded t = (case t of None \<Rightarrow> True | Some s \<Rightarrow> length (chars s) \<le> MAX_DURABLE_TEXT_CHARS)"

lemma bound_text_exact:
  "fst (bound_text t) = map_option (\<lambda>s. concat (take MAX_DURABLE_TEXT_CHARS (chars s))) t"
  "snd (bound_text t) \<longleftrightarrow> \<not> text_bounded t"
  by (auto simp: bound_text_def truncate_utf8_chars_exact text_bounded_def split: option.split)

lemma bound_text_bounded: "text_bounded (fst (bound_text t))"
  by (cases t) (simp_all add: bound_text_exact text_bounded_def chars_take)

lemma fold_arguments_fields:
  "arguments (fold_arguments display b) = None"
  "bl_text (fold_arguments display b) = bl_text b" "bl_content (fold_arguments display b) = bl_content b"
  "bl_result (fold_arguments display b) = bl_result b" "bl_error (fold_arguments display b) = bl_error b"
  by (auto simp: fold_arguments_def split: option.split)

lemma first_artifact_fields:
  "arguments (first_artifact b) = arguments b" "bl_text (first_artifact b) = bl_text b"
  "bl_content (first_artifact b) = bl_content b" "arguments_json (first_artifact b) = arguments_json b"
  "bl_result (first_artifact b) = bl_result b" "bl_error (first_artifact b) = bl_error b"
  by (auto simp: first_artifact_def split: option.split json.split)

lemma bound_content_block_fields:
  "bl_text (bound_content_block display b) = fst (bound_text (bl_text b))"
  "bl_content (bound_content_block display b) = fst (bound_text (bl_content b))"
  "arguments (bound_content_block display b) = None"
  "text_bounded (arguments_json (bound_content_block display b))"
  "bl_result (bound_content_block display b) = fst (bound_json display False (bl_result b))"
  "bl_error (bound_content_block display b) = fst (bound_json display True (bl_error b))"
  by (simp_all add: bound_content_block_def Let_def case_prod_beta first_artifact_fields fold_arguments_fields
      bound_text_bounded)

text \<open>
  An oversized structured error keeps its \<open>code\<close> as it is, whatever its size: the
  replacement is not bounded by a constant.
\<close>

lemma redaction_copies_code:
  "MAX_DURABLE_TEXT_CHARS < length (display v) \<Longrightarrow> jget ''code'' v = Some c \<Longrightarrow>
     jget ''code'' (fst (bound_structured_json display v True)) = Some c"
  by (simp add: bound_structured_json_def jget_jobject)

section \<open>Properties\<close>

text \<open>
  C22. Converting JSON to a VM value and back is the identity on every value whose integers
  fit \<open>i64\<close>: nothing is lost, renamed or reordered on the way into and out of a script.
\<close>

theorem json_vm_roundtrip:
  "vm_exact v \<Longrightarrow> vm_value_to_json lossy display (json_to_vm_value float_of v) = v"
  by (rule vm_roundtrip)

theorem json_vm_roundtrip_witness:
  "vm_value_to_json (\<lambda>s. s) (\<lambda>v. []) (json_to_vm_value (\<lambda>n. n)
     (JObject [(''a'', JArray [JNumber (PosInt 1), JNull]), (''b'', JString ''x'')])) =
   JObject [(''a'', JArray [JNumber (PosInt 1), JNull]), (''b'', JString ''x'')]"
  by (rule json_vm_roundtrip) (simp add: sorted_keys_def less_char_def)

text \<open>
  Within the bound of 128 bytes the event ids of the tool steps of a run are distinct
  for distinct calls and distinct event types: the replay check of the committer identifies
  exactly one step.
\<close>

theorem durable_tool_event_ids_distinct:
  assumes "length (run_id @ '':tool:'' @ c @ '':'' @ t) \<le> MAX_DURABLE_ID_BYTES"
    and "length (run_id @ '':tool:'' @ c' @ '':'' @ t') \<le> MAX_DURABLE_ID_BYTES"
    and "CHR '':'' \<notin> set t" and "CHR '':'' \<notin> set t'"
  shows "durable_tool_event_id run_id c t = durable_tool_event_id run_id c' t' \<longleftrightarrow> c = c' \<and> t = t'"
proof
  assume "durable_tool_event_id run_id c t = durable_tool_event_id run_id c' t'"
  then have "c @ CHR '':'' # t = c' @ CHR '':'' # t'"
    using assms(1,2) by (simp add: durable_tool_event_id_def bound_durable_id_def)
  then show "c = c' \<and> t = t'"
    using assms(3,4) append_last_sep by blast
qed simp

theorem durable_tool_event_ids_distinct_witness:
  "durable_tool_event_id ''r'' ''c'' ''tool.started'' \<noteq> durable_tool_event_id ''r'' ''c'' ''tool.completed''"
  using durable_tool_event_ids_distinct [of "''r''" "''c''" "''tool.started''" "''c''" "''tool.completed''"]
  by (simp add: MAX_DURABLE_ID_BYTES_def)

text \<open>
  Every block of encoded message content is bounded: its text, content and arguments have
  at most \<open>MAX_DURABLE_TEXT_CHARS\<close> characters, arguments are carried as JSON text only, and a
  structured result is either the original, within the bound, or the fixed redaction record.
\<close>

theorem message_blocks_bounded:
  "encode_message_content display to_value blocks = JArray (map to_value (map (bound_content_block display) blocks)) \<and>
   list_all (\<lambda>b. text_bounded (bl_text b) \<and> text_bounded (bl_content b) \<and> text_bounded (arguments_json b) \<and>
       arguments b = None \<and>
       (case bl_result b of
          None \<Rightarrow> True
        | Some v \<Rightarrow> length (display v) \<le> MAX_DURABLE_TEXT_CHARS \<or>
            (\<exists>n. v = jobject [(''truncated'', JBool True), (''redacted'', JBool True),
                              (''original_bytes'', JNumber (PosInt n))])))
     (map (bound_content_block display) blocks)"
proof -
  have "case fst (bound_json display False r) of None \<Rightarrow> True
      | Some v \<Rightarrow> length (display v) \<le> MAX_DURABLE_TEXT_CHARS \<or>
          (\<exists>n. v = jobject [(''truncated'', JBool True), (''redacted'', JBool True),
                            (''original_bytes'', JNumber (PosInt n))])" for r
    by (cases r) (auto simp: bound_json_def bound_structured_json_def Let_def split: if_splits)
  then show ?thesis
    by (simp add: encode_message_content_def list_all_iff bound_content_block_fields bound_text_bounded)
qed

end
