(* ===== verification/Run_Store.thy ===== *)
theory Run_Store
  imports Domain_Values
begin

section \<open>Runs, events and messages (\<open>gateway/store.rs\<close>, \<open>events.rs\<close>, \<open>runtime/delivery.rs\<close>)\<close>

text \<open>
  The records of the in-memory gateway store that event delivery and the terminal commits
  work on, the schema of script events, the event candidate with the next sequence number,
  and the operations that apply an event, a message or a terminal state to the store.

  A sequence number is a \<open>nat\<close>: the code counts up from one in a \<open>u64\<close>, once per event. The
  live channel of a run is a flag, \<open>sender\<close>: what is sent is recorded by the service state.
  Parameters are grouped in \<open>serde\<close>: the compact serialisation, \<open>from_utf8_lossy\<close> and the
  derived (de)serialisers of content blocks.
\<close>

record serde =
  display :: "json \<Rightarrow> string"
  lossy :: "string \<Rightarrow> string"
  from_value :: "json \<Rightarrow> llm_content_block option"
  to_value :: "llm_content_block \<Rightarrow> json"

record gateway_event =
  event_id :: string
  seq :: nat
  ev_type :: string
  ev_run_id :: string
  ev_timestamp :: u64
  ev_data :: json

record session_message =
  msg_id :: string
  msg_session_id :: string
  msg_role :: string
  msg_content :: json
  msg_created_at :: u64
  msg_run_id :: "string option"
  msg_finish_reason :: "string option"
  msg_name :: "string option"
  msg_tool_call_id :: "string option"
  msg_parent_id :: "string option"
  msg_token_estimate :: "int option"
  msg_metadata :: json
  msg_ordinal :: "int option"

record session_record =
  messages :: "session_message list"
  message_count :: nat
  updated_at :: u64

record run_record =
  rr_run_id :: string
  rr_session_id :: string
  rr_parent_run_id :: "string option"
  status :: string
  events :: "gateway_event list"
  sender :: bool

definition event_is_terminal :: "gateway_event \<Rightarrow> bool" where
  "event_is_terminal e \<longleftrightarrow> ev_type e \<in> {''run.completed'', ''run.cancelled'', ''run.failed''}"

definition run_is_terminal :: "string \<Rightarrow> bool" where
  "run_is_terminal st \<longleftrightarrow> st \<in> {''completed'', ''failed'', ''cancelled'', ''terminal_pending''}"

text \<open>
  The JSON object that \<open>into_sse\<close> sends: the envelope, then the fields of the data, which replace
  envelope fields of the same name.
\<close>

definition sse_payload :: "gateway_event \<Rightarrow> json" where
  "sse_payload ev =
     (let envelope = [(''event_id'', JString (event_id ev)), (''seq'', JNumber (PosInt (of_nat (seq ev)))),
            (''event'', JString (ev_type ev)), (''run_id'', JString (ev_run_id ev)),
            (''timestamp'', JNumber (PosInt (ev_timestamp ev)))]
      in jobject (envelope @ (case ev_data ev of JObject entries \<Rightarrow> entries | other \<Rightarrow> [(''data'', other)])))"

definition sse_frame :: "serde \<Rightarrow> gateway_event \<Rightarrow> string \<times> string" where
  "sse_frame sd ev = (ev_type ev, display sd (sse_payload ev))"

subsection \<open>Script events\<close>

definition CANONICAL_SCRIPT_EVENTS :: "string list" where
  "CANONICAL_SCRIPT_EVENTS =
     [''model.started'', ''model.delta'', ''model.completed'', ''tool.requested'', ''approval.required'',
      ''approval.resolved'', ''tool.started'', ''tool.output'', ''tool.completed'', ''tool.failed'',
      ''compact.started'', ''compact.completed'', ''subagent.started'', ''subagent.completed'']"

definition SERVICE_OWNED_EVENTS :: "string list" where
  "SERVICE_OWNED_EVENTS = [''run.started'', ''run.completed'', ''run.cancelled'', ''run.failed'', ''message.delta'']"

definition validate_script_event :: "vm_value \<Rightarrow> (string, string) result" where
  "validate_script_event v =
     (case v of
        VMap entries \<Rightarrow>
          (case map_of entries (VString ''type'') of
             Some (VString event_type) \<Rightarrow>
               if event_type \<in> set CANONICAL_SCRIPT_EVENTS then Inr event_type
               else if event_type \<in> set SERVICE_OWNED_EVENTS
               then Inl ''script events must not use service-owned event types''
               else Inl ''script event type is not a canonical agent event''
           | _ \<Rightarrow> Inl ''script event payload must carry a string 'type' field'')
      | _ \<Rightarrow> Inl ''script event payload must be a map'')"

definition script_event_data :: "serde \<Rightarrow> vm_value \<Rightarrow> json" where
  "script_event_data sd v = vm_value_to_json (lossy sd) (display sd) v"

definition schema_violation_error :: "string \<Rightarrow> json" where
  "schema_violation_error reason =
     jobject [(''status'', JString ''failed''), (''error_code'', JString ''invalid_event_schema''),
       (''error_message'', JString (''script event rejected by the agent event schema: '' @ reason))]"

definition failed_payload :: "string \<Rightarrow> json" where
  "failed_payload error =
     jobject [(''status'', JString ''failed''), (''error_code'', JString ''agent_failed''),
       (''error_message'', JString error)]"

datatype event_commit_error = Terminal | Cancelled | PersistFailed string | MissingParent | Corrupt string

subsection \<open>Event candidates\<close>

definition next_seq :: "run_record \<Rightarrow> nat" where
  "next_seq run = (case events run of [] \<Rightarrow> 1 | _ \<Rightarrow> seq (last (events run)) + 1)"

definition event_candidate ::
  "serde \<Rightarrow> run_record \<Rightarrow> string \<Rightarrow> json \<Rightarrow> nat \<Rightarrow> string \<Rightarrow> u64 \<Rightarrow> gateway_event" where
  "event_candidate sd run event_type data max_event_bytes uuid now =
     (let data' = (if max_event_bytes < length (display sd data)
                   then jobject [(''truncated'', JBool True), (''original_bytes'', JString ''over_limit'')]
                   else data)
      in \<lparr>event_id = uuid, seq = next_seq run, ev_type = event_type, ev_run_id = rr_run_id run,
          ev_timestamp = now, ev_data = data'\<rparr>)"

definition apply_event_locked :: "nat \<Rightarrow> gateway_event \<Rightarrow> run_record \<Rightarrow> run_record" where
  "apply_event_locked max_events_per_run ev run =
     (if list_ex (\<lambda>existing. event_id existing = event_id ev) (events run) then run
      else
        (let pushed = events run @ [ev];
             excess = length pushed - max_events_per_run
         in run\<lparr>events := drop excess pushed\<rparr>))"

subsection \<open>Messages and tool results\<close>

record tool_result =
  tr_ok :: bool
  tr_content :: string
  tr_data :: json
  tr_error :: "(string \<times> string) option"
  tr_truncated :: bool
  tr_artifacts :: "string list"
  tr_replayed :: bool

definition tool_success :: "string \<Rightarrow> json \<Rightarrow> tool_result" where
  "tool_success content data =
     \<lparr>tr_ok = True, tr_content = content, tr_data = data, tr_error = None, tr_truncated = False, tr_artifacts = [],
      tr_replayed = False\<rparr>"

definition tool_failure_with :: "string \<Rightarrow> string \<Rightarrow> string \<Rightarrow> json \<Rightarrow> bool \<Rightarrow> tool_result" where
  "tool_failure_with code message content data truncated =
     \<lparr>tr_ok = False, tr_content = content, tr_data = data, tr_error = Some (code, message),
      tr_truncated = truncated, tr_artifacts = [], tr_replayed = False\<rparr>"

definition tool_failure :: "string \<Rightarrow> string \<Rightarrow> tool_result" where
  "tool_failure code message = tool_failure_with code message [] (JObject []) False"

definition tool_result_content_json :: "serde \<Rightarrow> string \<Rightarrow> tool_result \<Rightarrow> json" where
  "tool_result_content_json sd tool_call_id res =
     (let (content, cut) = truncate_utf8_chars (tr_content res) MAX_DURABLE_TEXT_CHARS in
      encode_message_content (display sd) (to_value sd)
        [default_block\<lparr>
           block_type := ''tool_result'', bl_tool_call_id := Some tool_call_id, bl_content := Some content,
           is_error := Some (\<not> tr_ok res),
           bl_result := (if tr_ok res then Some (tr_data res) else None),
           bl_error := map_option (\<lambda>(code, message).
             jobject [(''code'', JString code), (''message'', JString message)]) (tr_error res),
           artifact := (case tr_artifacts res of [] \<Rightarrow> None | i # _ \<Rightarrow> Some (jobject [(''id'', JString i)])),
           bl_truncated := then_some_true (tr_truncated res \<or> cut)\<rparr>])"

fun find_some :: "('a \<Rightarrow> 'b option) \<Rightarrow> 'a list \<Rightarrow> 'b option" where
  "find_some f [] = None"
| "find_some f (x # xs) = (case f x of Some y \<Rightarrow> Some y | None \<Rightarrow> find_some f xs)"

definition lookup_tool_call_parent ::
  "serde \<Rightarrow> (string \<rightharpoonup> session_record) \<Rightarrow> string \<Rightarrow> string \<Rightarrow> (string \<times> string) option" where
  "lookup_tool_call_parent sd sessions session_id tool_call_id =
     (case sessions session_id of
        None \<Rightarrow> None
      | Some session \<Rightarrow>
          find_some (\<lambda>message.
            if msg_role message \<noteq> ''assistant'' then None
            else find_some (\<lambda>block.
              if block_type block = ''tool_call'' \<and> bl_tool_call_id block = Some tool_call_id
              then Some (msg_id message, case bl_name block of Some n \<Rightarrow> n | None \<Rightarrow> [])
              else None)
              (decode_message_blocks (display sd) (from_value sd) (msg_content message)))
            (messages session))"

definition next_message_ordinal :: "session_record \<Rightarrow> int" where
  "next_message_ordinal session =
     (let ordinals = List.map_filter msg_ordinal (messages session);
          max_ordinal = (case ordinals of [] \<Rightarrow> 0 | _ \<Rightarrow> fold max ordinals (hd ordinals))
      in max max_ordinal (int (length (messages session))) + 1)"

definition push_message ::
  "session_message option \<Rightarrow> u64 \<Rightarrow> (string \<rightharpoonup> session_record) \<Rightarrow> (string \<rightharpoonup> session_record)" where
  "push_message message now sessions =
     (case message of
        None \<Rightarrow> sessions
      | Some m \<Rightarrow>
          (case sessions (msg_session_id m) of
             None \<Rightarrow> sessions
           | Some session \<Rightarrow>
               if list_ex (\<lambda>existing. msg_id existing = msg_id m) (messages session) then sessions
               else
                 (let msgs = messages session @ [m] in
                  sessions(msg_session_id m \<mapsto>
                    session\<lparr>messages := msgs, message_count := length msgs, updated_at := now\<rparr>))))"

definition opt_field :: "string \<Rightarrow> json option \<Rightarrow> (string \<times> json) list" where
  "opt_field k v = (case v of None \<Rightarrow> [] | Some j \<Rightarrow> [(k, j)])"

definition is_null_or_empty :: "json \<Rightarrow> bool" where
  "is_null_or_empty v \<longleftrightarrow> v = JNull \<or> as_object v = Some []"

definition session_message_json :: "session_message \<Rightarrow> json" where
  "session_message_json m =
     jobject ([(''id'', JString (msg_id m)), (''session_id'', JString (msg_session_id m)),
        (''role'', JString (msg_role m)), (''content'', msg_content m),
        (''created_at'', JNumber (PosInt (msg_created_at m)))]
      @ opt_field ''run_id'' (map_option JString (msg_run_id m))
      @ opt_field ''finish_reason'' (map_option JString (msg_finish_reason m))
      @ opt_field ''name'' (map_option JString (msg_name m))
      @ opt_field ''tool_call_id'' (map_option JString (msg_tool_call_id m))
      @ opt_field ''parent_message_id'' (map_option JString (msg_parent_id m))
      @ opt_field ''token_estimate'' (map_option (\<lambda>n. json_of_i64 (of_int n)) (msg_token_estimate m))
      @ opt_field ''metadata'' (if is_null_or_empty (msg_metadata m) then None else Some (msg_metadata m))
      @ opt_field ''ordinal'' (map_option (\<lambda>n. json_of_i64 (of_int n)) (msg_ordinal m)))"

definition resequence :: "(string \<times> nat) list \<Rightarrow> gateway_event \<Rightarrow> gateway_event" where
  "resequence seqs ev = (case map_of seqs (event_id ev) of Some n \<Rightarrow> ev\<lparr>seq := n\<rparr> | None \<Rightarrow> ev)"

section \<open>Facts\<close>

lemma apply_event_locked_fields [simp]:
  "status (apply_event_locked m ev run) = status run" "sender (apply_event_locked m ev run) = sender run"
  "rr_run_id (apply_event_locked m ev run) = rr_run_id run"
  by (simp_all add: apply_event_locked_def Let_def)

lemma apply_event_locked_bound: "length (events run) \<le> m \<Longrightarrow> length (events (apply_event_locked m ev run)) \<le> m"
  by (auto simp: apply_event_locked_def Let_def)

lemma apply_event_locked_set: "set (events (apply_event_locked m ev run)) \<subseteq> insert ev (set (events run))"
  by (auto simp: apply_event_locked_def Let_def dest: in_set_dropD)

lemma validate_script_event_canonical: "validate_script_event v = Inr t \<Longrightarrow> t \<in> set CANONICAL_SCRIPT_EVENTS"
  by (auto simp: validate_script_event_def split: vm_value.splits option.splits if_splits)

lemma canonical_not_terminal: "ev_type e \<in> set CANONICAL_SCRIPT_EVENTS \<Longrightarrow> \<not> event_is_terminal e"
  by (auto simp: CANONICAL_SCRIPT_EVENTS_def event_is_terminal_def)

lemma event_candidate_fields [simp]:
  "event_id (event_candidate sd run t d m u now) = u" "seq (event_candidate sd run t d m u now) = next_seq run"
  "ev_type (event_candidate sd run t d m u now) = t" "ev_run_id (event_candidate sd run t d m u now) = rr_run_id run"
  by (simp_all add: event_candidate_def Let_def)

end
