(* ===== verification/Run_Commit.thy ===== *)
theory Run_Commit
  imports Run_Store
begin

section \<open>Durable-first commits of run events and terminals (\<open>service.rs\<close>, \<open>runtime/delivery.rs\<close>)\<close>

text \<open>
  Every commit of a run event takes the commit gate, reads the store and reserves an event
  with the next sequence number, calls the persistence worker without the store lock, and
  applies and publishes the event after durable success. An operation is therefore two
  definitions: \<open>..._begin\<close>, up to the persistence call, which returns early or reserves
  (\<open>begun\<close>), and \<open>..._finish\<close>, from the answer of the call on. The gate is a field of the
  service state that holds the reservation in between; other threads run there.

  A persistence call is its operation and payload; its answer is an argument. Three fields
  of the state are history: \<open>durable\<close> holds the calls that succeeded, \<open>recorded\<close> the events
  pushed to the store and \<open>published\<close> the events sent to the live channels, in order.
  \<open>sending\<close> holds the delivered events that the delivery task has yet to send: it does so
  after it has released the gate. \<open>parked\<close> holds what a failed terminal attempt returned to
  its worker. UUIDs and clock readings are arguments; an instant is a \<open>nat\<close>.
\<close>

record gateway_config =
  max_event_bytes :: nat
  max_events_per_run :: nat
  terminal_persist_retries :: nat
  terminal_commit_retry_window :: nat
  has_persistence :: bool

datatype persist_op = EventAppend | StepCommit | EventAppendPair | RunTerminal

record persist_call =
  call_op :: persist_op
  call_payload :: json

text \<open>A \<open>StorageError\<close>, code and message, and the decoding of a worker answer.\<close>

type_synonym persist_error = "string \<times> string"

definition show_storage_error :: "persist_error \<Rightarrow> string" where
  "show_storage_error e = fst e @ '': '' @ snd e"

definition decode_command_data :: "json \<Rightarrow> (persist_error, json) result" where
  "decode_command_data data =
     (if jget ''rows'' data = None then Inr data
      else
        (case sqlite_storage_rows data of
           Inl message \<Rightarrow> Inl (''storage_error'', message)
         | Inr rows \<Rightarrow>
             (case data of
                JObject m \<Rightarrow> Inr (JObject (jinsert ''rows'' (JArray (map JArray rows)) m))
              | other \<Rightarrow> Inr other)))"

definition command_data :: "(string, json) result \<Rightarrow> (persist_error, json) result" where
  "command_data response =
     (case response of
        Inl message \<Rightarrow> Inl (''storage_unavailable'', message)
      | Inr res \<Rightarrow>
          if jget ''ok'' res \<noteq> Some (JBool True)
          then Inl (case Option.bind (jget ''code'' res) as_str of Some c \<Rightarrow> c | None \<Rightarrow> ''storage_error'',
                    case Option.bind (jget ''message'' res) as_str of Some m \<Rightarrow> m | None \<Rightarrow> ''storage command failed'')
          else decode_command_data (or_null (jget ''data'' res)))"

record pending_terminal =
  pt_to_status :: string
  pt_session_id :: "string option"
  pt_events :: "gateway_event list"
  pt_message :: "session_message option"
  pt_deadline :: nat

record reserved_commit =
  rc_event :: gateway_event
  rc_message :: "session_message option"
  rc_call :: persist_call

record reserved_pair =
  rp_first :: gateway_event
  rp_second :: gateway_event
  rp_call :: persist_call

record terminal_request =
  tq_run_id :: string
  tq_to_status :: string
  tq_session_id :: "string option"
  tq_events :: "gateway_event list"
  tq_message :: "session_message option"

datatype inflight =
    InDeliver string reserved_commit
  | InCommit reserved_commit
  | InPair reserved_pair
  | InTerminal terminal_request
  | InRetry string pending_terminal

record run_handle =
  terminal_at :: bool
  cancel_requested :: bool
  cancel_reason :: "string option"

record service =
  runs :: "string \<rightharpoonup> run_record"
  sessions :: "string \<rightharpoonup> session_record"
  handles :: "string \<rightharpoonup> run_handle"
  pending :: "string \<rightharpoonup> pending_terminal"
  gate :: "inflight option"
  sending :: "gateway_event list"
  parked :: "(string \<times> pending_terminal) list"
  durable :: "persist_call list"
  recorded :: "gateway_event list"
  published :: "gateway_event list"

datatype 'o begun = Done 'o | Reserve inflight

subsection \<open>Persistence, store and live channel\<close>

definition persist_result :: "gateway_config \<Rightarrow> (persist_error, json) result \<Rightarrow> (persist_error, unit) result" where
  "persist_result cfg answer = (if has_persistence cfg then map_sum id (\<lambda>_. ()) answer else Inr ())"

definition log_call :: "gateway_config \<Rightarrow> persist_call \<Rightarrow> (persist_error, json) result \<Rightarrow> service \<Rightarrow> service" where
  "log_call cfg call answer s =
     (if has_persistence cfg \<and> \<not> isl answer then s\<lparr>durable := durable s @ [call]\<rparr> else s)"

text \<open>\<open>apply_event_locked\<close> on the run of the store, with the history of pushed events.\<close>

definition apply_event :: "gateway_config \<Rightarrow> string \<Rightarrow> gateway_event \<Rightarrow> service \<Rightarrow> service" where
  "apply_event cfg run_id ev s =
     (case runs s run_id of
        None \<Rightarrow> s
      | Some run \<Rightarrow>
          s\<lparr>runs := (runs s)(run_id \<mapsto> apply_event_locked (max_events_per_run cfg) ev run),
            recorded := recorded s @
              (if list_ex (\<lambda>existing. event_id existing = event_id ev) (events run) then [] else [ev])\<rparr>)"

definition send_live :: "string \<Rightarrow> gateway_event list \<Rightarrow> service \<Rightarrow> service" where
  "send_live run_id evs s =
     (case runs s run_id of
        Some run \<Rightarrow> if sender run then s\<lparr>published := published s @ evs\<rparr> else s
      | None \<Rightarrow> s)"

definition set_status :: "string \<Rightarrow> string \<Rightarrow> service \<Rightarrow> service" where
  "set_status run_id st s =
     (case runs s run_id of None \<Rightarrow> s | Some run \<Rightarrow> s\<lparr>runs := (runs s)(run_id \<mapsto> run\<lparr>status := st\<rparr>)\<rparr>)"

definition close_run_stream :: "string \<Rightarrow> service \<Rightarrow> service" where
  "close_run_stream run_id s =
     (case runs s run_id of None \<Rightarrow> s | Some run \<Rightarrow> s\<lparr>runs := (runs s)(run_id \<mapsto> run\<lparr>sender := False\<rparr>)\<rparr>)"

definition release :: "service \<Rightarrow> service" where
  "release s = s\<lparr>gate := None\<rparr>"

definition json_of_nat :: "nat \<Rightarrow> json" where
  "json_of_nat n = JNumber (PosInt (of_nat n))"

definition event_append_payload :: "serde \<Rightarrow> gateway_config \<Rightarrow> string \<Rightarrow> gateway_event \<Rightarrow> u64 \<Rightarrow> json" where
  "event_append_payload sd cfg run_id ev now_ms =
     jobject [(''run_id'', JString run_id), (''event_id'', JString (event_id ev)),
       (''event_type'', JString (ev_type ev)), (''payload_json'', JString (display sd (ev_data ev))),
       (''now_ms'', JNumber (PosInt now_ms)), (''max_events'', json_of_nat (max_events_per_run cfg)),
       (''seq'', json_of_nat (seq ev))]"

subsection \<open>Delivery of script events\<close>

datatype deliver_outcome = Published gateway_event | RunEnded | DeliverFailed persist_error | SenderMissing

definition deliver_begin ::
  "serde \<Rightarrow> gateway_config \<Rightarrow> string \<Rightarrow> string \<Rightarrow> json \<Rightarrow> string \<Rightarrow> u64 \<Rightarrow> u64 \<Rightarrow> service \<Rightarrow> deliver_outcome begun" where
  "deliver_begin sd cfg run_id event_type data uuid now now_ms s =
     (case runs s run_id of
        None \<Rightarrow> Done RunEnded
      | Some run \<Rightarrow>
          if status run \<in> {''completed'', ''failed'', ''cancelled'', ''terminal_pending''} then Done RunEnded
          else
            (let ev = event_candidate sd run event_type data (max_event_bytes cfg) uuid now in
             Reserve (InDeliver run_id \<lparr>rc_event = ev, rc_message = None,
               rc_call = \<lparr>call_op = EventAppend, call_payload = event_append_payload sd cfg run_id ev now_ms\<rparr>\<rparr>)))"

definition deliver_finish ::
  "gateway_config \<Rightarrow> string \<Rightarrow> reserved_commit \<Rightarrow> (persist_error, json) result \<Rightarrow> service \<Rightarrow> deliver_outcome \<times> service" where
  "deliver_finish cfg run_id rc answer s =
     (let s = log_call cfg (rc_call rc) answer s in
      case persist_result cfg answer of
        Inl error \<Rightarrow> (DeliverFailed error, release s)
      | Inr _ \<Rightarrow>
          (case runs s run_id of
             None \<Rightarrow> (RunEnded, release s)
           | Some run \<Rightarrow>
               (let s = apply_event cfg run_id (rc_event rc) s in
                if sender run then (Published (rc_event rc), release (s\<lparr>sending := sending s @ [rc_event rc]\<rparr>))
                else (SenderMissing, release s))))"

text \<open>The send after the gate was released, on the sender that was cloned under it.\<close>

definition deliver_send :: "gateway_event \<Rightarrow> service \<Rightarrow> service" where
  "deliver_send ev s = s\<lparr>sending := remove1 ev (sending s), published := published s @ [ev]\<rparr>"

record delivery_outcome =
  schema_violation :: "string option"
  persist_failed :: bool
  delivered :: nat

text \<open>
  What the environment supplies for one received value: the UUID, the two clock readings and
  the answer of the persistence worker.
\<close>

record delivery_input =
  di_value :: vm_value
  di_uuid :: string
  di_now :: u64
  di_now_ms :: u64
  di_answer :: "(persist_error, json) result"

text \<open>
  The delivery loop over the values received until the channel closes, with no other thread
  in between. A missing sender is the panic of the code: \<open>None\<close>.
\<close>

fun run_delivery_task ::
  "serde \<Rightarrow> gateway_config \<Rightarrow> string \<Rightarrow> delivery_input list \<Rightarrow> delivery_outcome \<Rightarrow> service \<Rightarrow>
   (delivery_outcome \<times> service) option" where
  "run_delivery_task sd cfg run_id [] out s = Some (out, s)"
| "run_delivery_task sd cfg run_id (i # is) out s =
     (case validate_script_event (di_value i) of
        Inl reason \<Rightarrow>
          run_delivery_task sd cfg run_id is
            (if schema_violation out = None then out\<lparr>schema_violation := Some reason\<rparr> else out) s
      | Inr event_type \<Rightarrow>
          (case deliver_begin sd cfg run_id event_type (script_event_data sd (di_value i)) (di_uuid i)
                  (di_now i) (di_now_ms i) s of
             Reserve (InDeliver r rc) \<Rightarrow>
               (case deliver_finish cfg run_id rc (di_answer i) s of
                  (Published ev, s) \<Rightarrow>
                    run_delivery_task sd cfg run_id is (out\<lparr>delivered := delivered out + 1\<rparr>) (deliver_send ev s)
                | (RunEnded, s) \<Rightarrow> Some (out, s)
                | (DeliverFailed _, s) \<Rightarrow> run_delivery_task sd cfg run_id is (out\<lparr>persist_failed := True\<rparr>) s
                | (SenderMissing, s) \<Rightarrow> None)
           | _ \<Rightarrow> Some (out, s)))"

subsection \<open>The service event committer\<close>

definition is_terminal :: "string \<Rightarrow> service \<Rightarrow> bool" where
  "is_terminal run_id s = (case handles s run_id of None \<Rightarrow> True | Some h \<Rightarrow> terminal_at h)"

definition stop_requested :: "string \<Rightarrow> service \<Rightarrow> bool" where
  "stop_requested run_id s = (case handles s run_id of None \<Rightarrow> True | Some h \<Rightarrow> cancel_requested h)"

definition prepare_tool_parent ::
  "serde \<Rightarrow> string \<Rightarrow> string \<Rightarrow> string \<Rightarrow> service \<Rightarrow> (event_commit_error, string \<times> string) result" where
  "prepare_tool_parent sd run_id tool_call_id name s =
     (case runs s run_id of
        None \<Rightarrow> Inl Terminal
      | Some run \<Rightarrow>
          if run_is_terminal (status run) then Inl Terminal
          else
            (case lookup_tool_call_parent sd (sessions s) (rr_session_id run) tool_call_id of
               Some (parent_id, stored_name) \<Rightarrow>
                 if stored_name = name then Inr (parent_id, stored_name) else Inl MissingParent
             | None \<Rightarrow> Inl MissingParent))"

definition str_field :: "string \<Rightarrow> json \<Rightarrow> string option" where
  "str_field k data = Option.bind (jget k data) as_str"

definition tool_call_of :: "json \<Rightarrow> string" where
  "tool_call_of data = (case str_field ''tool_call_id'' data of Some c \<Rightarrow> c | None \<Rightarrow> [])"

definition tool_event_id :: "string \<Rightarrow> string \<Rightarrow> string \<Rightarrow> string" where
  "tool_event_id run_id tool_call_id event_type =
     (if tool_call_id = [] then [] else durable_tool_event_id run_id tool_call_id event_type)"

definition event_present :: "string \<Rightarrow> run_record \<Rightarrow> bool" where
  "event_present i run \<longleftrightarrow> i \<noteq> [] \<and> list_ex (\<lambda>e. event_id e = i) (events run)"

definition attaches_message :: "string \<Rightarrow> string \<Rightarrow> tool_result option \<Rightarrow> bool" where
  "attaches_message event_type tool_call_id res \<longleftrightarrow>
     res \<noteq> None \<and> tool_call_id \<noteq> [] \<and> event_type \<in> {''tool.output'', ''tool.completed'', ''tool.failed''}"

text \<open>The guard on a failure that is reported without a start (\<open>validation_only\<close>).\<close>

definition unstarted_failure_error ::
  "string \<Rightarrow> run_record \<Rightarrow> string \<Rightarrow> json \<Rightarrow> tool_result option \<Rightarrow> string \<Rightarrow> string \<Rightarrow> service \<Rightarrow> event_commit_error option" where
  "unstarted_failure_error run_id run event_type data res parent_id tool_name s =
     (if Option.bind (jget ''validation_only'' data) as_bool \<noteq> Some True then None
      else if stop_requested run_id s then Some Cancelled
      else
        (case Option.bind (sessions s (rr_session_id run)) (\<lambda>session. find (\<lambda>m. msg_id m = parent_id) (messages session)) of
           None \<Rightarrow> Some MissingParent
         | Some parent \<Rightarrow>
             if event_type \<noteq> ''tool.failed''
                \<or> (case res of None \<Rightarrow> True | Some r \<Rightarrow> tr_ok r)
                \<or> msg_run_id parent \<noteq> Some run_id
                \<or> (case str_field ''name'' data of Some name \<Rightarrow> name \<noteq> tool_name | None \<Rightarrow> False)
                \<or> list_ex (\<lambda>e. ev_type e = ''tool.started'' \<and> str_field ''tool_call_id'' (ev_data e) = Some (tool_call_of data))
                    (events run)
             then Some (Corrupt ''invalid unstarted tool failure'') else None))"

definition non_empty :: "string \<Rightarrow> string option" where
  "non_empty x = (if x = [] then None else Some x)"

text \<open>The clock readings of the event, of the message and of the payload are \<open>clk 0\<close>, \<open>clk 1\<close> and \<open>clk 2\<close>.\<close>

definition reserve_step ::
  "serde \<Rightarrow> gateway_config \<Rightarrow> string \<Rightarrow> run_record \<Rightarrow> string \<Rightarrow> json \<Rightarrow> tool_result option \<Rightarrow> string \<Rightarrow> string \<Rightarrow>
   string \<Rightarrow> (nat \<Rightarrow> u64) \<Rightarrow> service \<Rightarrow> reserved_commit" where
  "reserve_step sd cfg run_id run event_type data res parent_id tool_name uuid clk s =
     (let call = tool_call_of data;
          i = tool_event_id run_id call event_type;
          attach = attaches_message event_type call res;
          session_id = rr_session_id run;
          ev = event_candidate sd run event_type data (max_event_bytes cfg) uuid (clk 0);
          ev = (if i \<noteq> [] then ev\<lparr>event_id := i\<rparr> else ev);
          message_id = durable_message_id run_id ''result'' call;
          content = (case res of Some r \<Rightarrow> tool_result_content_json sd call r | None \<Rightarrow> JArray []);
          ordinal = map_option next_message_ordinal (sessions s session_id);
          message = \<lparr>msg_id = message_id, msg_session_id = session_id, msg_role = ''user'', msg_content = content,
            msg_created_at = clk 1, msg_run_id = Some run_id, msg_finish_reason = None, msg_name = non_empty tool_name,
            msg_tool_call_id = Some call, msg_parent_id = non_empty parent_id, msg_token_estimate = None,
            msg_metadata = JNull, msg_ordinal = ordinal\<rparr>;
          payload_json = display sd (ev_data ev);
          step_payload = jobject [(''run_id'', JString run_id), (''session_id'', JString session_id),
            (''event_id'', JString (event_id ev)), (''event_type'', JString (ev_type ev)),
            (''payload_json'', JString payload_json), (''now_ms'', JNumber (PosInt (clk 2))),
            (''max_events'', json_of_nat (max_events_per_run cfg)), (''message_id'', JString message_id),
            (''role'', JString ''user''), (''content_json'', JString (display sd content)),
            (''name'', JString tool_name), (''tool_call_id'', JString call), (''parent_message_id'', JString parent_id),
            (''token_estimate'', json_of_nat 0), (''metadata_json'', JString ''{}''), (''finish_reason'', JString []),
            (''seq'', json_of_nat (seq ev)),
            (''ordinal'', json_of_i64 (of_int (case ordinal of Some n \<Rightarrow> n | None \<Rightarrow> 0)))]
      in if attach
         then \<lparr>rc_event = ev, rc_message = Some message, rc_call = \<lparr>call_op = StepCommit, call_payload = step_payload\<rparr>\<rparr>
         else \<lparr>rc_event = ev, rc_message = None,
               rc_call = \<lparr>call_op = EventAppend, call_payload = event_append_payload sd cfg run_id ev (clk 2)\<rparr>\<rparr>)"

text \<open>
  \<open>terminal_seen\<close> is what \<open>is_terminal\<close> answered before the gate was taken.
\<close>

definition commit_step_begin ::
  "serde \<Rightarrow> gateway_config \<Rightarrow> string \<Rightarrow> bool \<Rightarrow> string \<Rightarrow> json \<Rightarrow> tool_result option \<Rightarrow> string \<Rightarrow> (nat \<Rightarrow> u64) \<Rightarrow>
   service \<Rightarrow> (event_commit_error, unit) result begun" where
  "commit_step_begin sd cfg run_id terminal_seen event_type data res uuid clk s =
     (if terminal_seen then Done (Inl Terminal)
      else
        (case runs s run_id of
           None \<Rightarrow> Done (Inl Terminal)
         | Some run \<Rightarrow>
             if run_is_terminal (status run) then Done (Inl Terminal)
             else if event_present (tool_event_id run_id (tool_call_of data) event_type) run then Done (Inr ())
             else
               (case (if attaches_message event_type (tool_call_of data) res
                      then lookup_tool_call_parent sd (sessions s) (rr_session_id run) (tool_call_of data)
                      else Some ([], [])) of
                  None \<Rightarrow> Done (Inl MissingParent)
                | Some (parent_id, tool_name) \<Rightarrow>
                    (case unstarted_failure_error run_id run event_type data res parent_id tool_name s of
                       Some error \<Rightarrow> Done (Inl error)
                     | None \<Rightarrow>
                         Reserve (InCommit
                           (reserve_step sd cfg run_id run event_type data res parent_id tool_name uuid clk s))))))"

definition apply_reserved :: "gateway_config \<Rightarrow> reserved_commit \<Rightarrow> u64 \<Rightarrow> service \<Rightarrow> service" where
  "apply_reserved cfg rc now s =
     (let s = apply_event cfg (ev_run_id (rc_event rc)) (rc_event rc) s
      in s\<lparr>sessions := push_message (rc_message rc) now (sessions s)\<rparr>)"

definition persist_and_apply ::
  "gateway_config \<Rightarrow> reserved_commit \<Rightarrow> (persist_error, json) result \<Rightarrow> u64 \<Rightarrow> service \<Rightarrow>
   (event_commit_error, unit) result \<times> service" where
  "persist_and_apply cfg rc answer now s =
     (let s = log_call cfg (rc_call rc) answer s in
      case persist_result cfg answer of
        Inl error \<Rightarrow> (Inl (PersistFailed (show_storage_error error)), release s)
      | Inr _ \<Rightarrow>
          (Inr (), release (send_live (ev_run_id (rc_event rc)) [rc_event rc] (apply_reserved cfg rc now s))))"

definition pair_event ::
  "serde \<Rightarrow> gateway_config \<Rightarrow> string \<Rightarrow> run_record \<Rightarrow> string \<times> json \<Rightarrow> string \<Rightarrow> u64 \<Rightarrow> gateway_event" where
  "pair_event sd cfg run_id run typed uuid now =
     (let ev = event_candidate sd run (fst typed) (snd typed) (max_event_bytes cfg) uuid now;
          i = tool_event_id run_id (tool_call_of (snd typed)) (fst typed)
      in if i \<noteq> [] then ev\<lparr>event_id := i\<rparr> else ev)"

definition reserve_single ::
  "serde \<Rightarrow> gateway_config \<Rightarrow> string \<Rightarrow> gateway_event \<Rightarrow> u64 \<Rightarrow> reserved_commit" where
  "reserve_single sd cfg run_id ev now_ms =
     \<lparr>rc_event = ev, rc_message = None,
      rc_call = \<lparr>call_op = EventAppend, call_payload = event_append_payload sd cfg run_id ev now_ms\<rparr>\<rparr>"

definition reserve_pair ::
  "serde \<Rightarrow> gateway_config \<Rightarrow> string \<Rightarrow> gateway_event \<Rightarrow> gateway_event \<Rightarrow> u64 \<Rightarrow> reserved_pair" where
  "reserve_pair sd cfg run_id first_event second_event now_ms =
     (let second_event = second_event\<lparr>seq := seq first_event + 1\<rparr> in
      \<lparr>rp_first = first_event, rp_second = second_event,
       rp_call = \<lparr>call_op = EventAppendPair, call_payload = jobject
         [(''run_id'', JString run_id),
          (''event_id_a'', JString (event_id first_event)), (''event_type_a'', JString (ev_type first_event)),
          (''payload_json_a'', JString (display sd (ev_data first_event))),
          (''event_id_b'', JString (event_id second_event)), (''event_type_b'', JString (ev_type second_event)),
          (''payload_json_b'', JString (display sd (ev_data second_event))),
          (''now_ms'', JNumber (PosInt now_ms)), (''max_events'', json_of_nat (max_events_per_run cfg)),
          (''seq_a'', json_of_nat (seq first_event)), (''seq_b'', json_of_nat (seq second_event))]\<rparr>\<rparr>)"

definition commit_pair_begin ::
  "serde \<Rightarrow> gateway_config \<Rightarrow> string \<Rightarrow> bool \<Rightarrow> string \<times> json \<Rightarrow> string \<times> json \<Rightarrow> string \<Rightarrow> string \<Rightarrow> (nat \<Rightarrow> u64) \<Rightarrow>
   service \<Rightarrow> (event_commit_error, unit) result begun" where
  "commit_pair_begin sd cfg run_id terminal_seen first second uuid1 uuid2 clk s =
     (if terminal_seen then Done (Inl Terminal)
      else
        (case runs s run_id of
           None \<Rightarrow> Done (Inl Terminal)
         | Some run \<Rightarrow>
             if run_is_terminal (status run) then Done (Inl Terminal)
             else
               (let first_present = event_present (tool_event_id run_id (tool_call_of (snd first)) (fst first)) run;
                    second_present = event_present (tool_event_id run_id (tool_call_of (snd second)) (fst second)) run;
                    first_event = pair_event sd cfg run_id run first uuid1 (clk 0);
                    second_event = pair_event sd cfg run_id run second uuid2 (clk 1)
                in if first_present \<and> second_present then Done (Inr ())
                   else if \<not> first_present \<and> second_present
                   then Reserve (InCommit (reserve_single sd cfg run_id first_event (clk 2)))
                   else if first_present \<and> \<not> second_present
                   then Reserve (InCommit (reserve_single sd cfg run_id second_event (clk 2)))
                   else Reserve (InPair (reserve_pair sd cfg run_id first_event second_event (clk 2))))))"

definition apply_reserved_pair :: "gateway_config \<Rightarrow> reserved_pair \<Rightarrow> service \<Rightarrow> service" where
  "apply_reserved_pair cfg rp s =
     apply_event cfg (ev_run_id (rp_first rp)) (rp_second rp)
       (apply_event cfg (ev_run_id (rp_first rp)) (rp_first rp) s)"

definition persist_and_apply_pair ::
  "gateway_config \<Rightarrow> reserved_pair \<Rightarrow> (persist_error, json) result \<Rightarrow> service \<Rightarrow>
   (event_commit_error, unit) result \<times> service" where
  "persist_and_apply_pair cfg rp answer s =
     (let s = log_call cfg (rp_call rp) answer s in
      case persist_result cfg answer of
        Inl error \<Rightarrow> (Inl (PersistFailed (show_storage_error error)), release s)
      | Inr _ \<Rightarrow>
          (Inr (), release (send_live (ev_run_id (rp_first rp)) [rp_first rp, rp_second rp] (apply_reserved_pair cfg rp s))))"

end
