(* ===== verification/Run_Terminal.thy ===== *)
theory Run_Terminal
  imports Run_Commit
begin

section \<open>Terminal commits, their retries and the step relation (\<open>service.rs\<close>)\<close>

text \<open>
  The one terminal transition of a run: the attempts of \<open>finish_completed\<close>,
  \<open>finish_cancelled\<close> and \<open>finish_failed\<close>, the pending terminal that is left when every attempt
  failed, the retry loop that commits it, and \<open>stop\<close>. Then the interleavings of these with
  the event commits, as a step relation on the service state.
\<close>

subsection \<open>The durable transaction\<close>

definition event_field :: "(gateway_event \<Rightarrow> string) \<Rightarrow> string \<Rightarrow> gateway_event list \<Rightarrow> nat \<Rightarrow> json" where
  "event_field f dflt evs i = JString (if i < length evs then f (evs ! i) else dflt)"

definition message_field :: "(session_message \<Rightarrow> string) \<Rightarrow> session_message option \<Rightarrow> json" where
  "message_field f message = JString (case message of Some m \<Rightarrow> f m | None \<Rightarrow> [])"

definition terminal_payload ::
  "serde \<Rightarrow> string \<Rightarrow> string \<Rightarrow> string \<Rightarrow> gateway_event list \<Rightarrow> session_message option \<Rightarrow> u64 \<Rightarrow> json" where
  "terminal_payload sd run_id session_id to_status evs message now =
     jobject [(''run_id'', JString run_id), (''to_status'', JString to_status),
       (''error_code'', JString []), (''error_message'', JString []),
       (''event_1_id'', event_field event_id [] evs 0), (''event_1_type'', event_field ev_type [] evs 0),
       (''event_1_payload'', event_field (\<lambda>e. display sd (ev_data e)) ''{}'' evs 0),
       (''event_2_id'', event_field event_id [] evs 1), (''event_2_type'', event_field ev_type [] evs 1),
       (''event_2_payload'', event_field (\<lambda>e. display sd (ev_data e)) ''{}'' evs 1),
       (''event_count'', json_of_nat (length evs)),
       (''message_id'', message_field msg_id message),
       (''message_session_id'', message_field (\<lambda>_. session_id) message),
       (''message_role'', message_field msg_role message),
       (''message_content_json'', message_field (\<lambda>m. display sd (msg_content m)) message),
       (''message_run_id'', message_field (\<lambda>m. case msg_run_id m of Some r \<Rightarrow> r | None \<Rightarrow> []) message),
       (''message_finish_reason'', message_field (\<lambda>m. case msg_finish_reason m of Some r \<Rightarrow> r | None \<Rightarrow> []) message),
       (''message_ordinal'', json_of_i64 (of_int (case Option.bind message msg_ordinal of Some n \<Rightarrow> n | None \<Rightarrow> 0))),
       (''now_ms'', JNumber (PosInt (case evs of e # _ \<Rightarrow> ev_timestamp e | [] \<Rightarrow> now)))]"

definition event_row_seq :: "gateway_event \<times> json list \<Rightarrow> (persist_error, string \<times> nat) result" where
  "event_row_seq er =
     (case er of (ev, row) \<Rightarrow>
        (case Option.bind (case row of c # _ \<Rightarrow> Some c | [] \<Rightarrow> None) as_u64 of
           Some n \<Rightarrow> Inr (event_id ev, unat n)
         | None \<Rightarrow> Inl (''terminal_commit_invalid'', ''run.terminal returned a malformed event sequence'')))"

text \<open>\<open>terminal_commit\<close> from the answer of \<open>run.terminal\<close> on.\<close>

definition terminal_seqs ::
  "gateway_config \<Rightarrow> gateway_event list \<Rightarrow> (persist_error, json) result \<Rightarrow> (persist_error, (string \<times> nat) list) result" where
  "terminal_seqs cfg evs answer =
     (if \<not> has_persistence cfg then Inr (map (\<lambda>e. (event_id e, seq e)) evs)
      else
        (case answer of
           Inl error \<Rightarrow> Inl error
         | Inr data \<Rightarrow>
             (case sqlite_storage_rows (or_null (jget ''events'' data)) of
                Inl message \<Rightarrow> Inl (''terminal_commit_invalid'', message)
              | Inr rows \<Rightarrow>
                  if length rows < length evs
                  then Inl (''terminal_commit_invalid'', ''run.terminal appended '' @ show_nat (length rows)
                         @ '' events, expected at least '' @ show_nat (length evs))
                  else result_map event_row_seq (zip evs (drop (length rows - length evs) rows)))))"

definition terminal_call ::
  "serde \<Rightarrow> string \<Rightarrow> string option \<Rightarrow> string \<Rightarrow> gateway_event list \<Rightarrow> session_message option \<Rightarrow> u64 \<Rightarrow> persist_call" where
  "terminal_call sd run_id session_id to_status evs message now =
     \<lparr>call_op = RunTerminal,
      call_payload = terminal_payload sd run_id (case session_id of Some i \<Rightarrow> i | None \<Rightarrow> []) to_status evs message now\<rparr>"

definition apply_terminal ::
  "gateway_config \<Rightarrow> string \<Rightarrow> string \<Rightarrow> gateway_event list \<Rightarrow> (string \<times> nat) list \<Rightarrow> session_message option \<Rightarrow> u64 \<Rightarrow>
   service \<Rightarrow> service" where
  "apply_terminal cfg run_id to_status evs seqs message now s =
     (let s = set_status run_id to_status (fold (\<lambda>ev. apply_event cfg run_id (resequence seqs ev)) evs s)
      in s\<lparr>sessions := push_message message now (sessions s)\<rparr>)"

subsection \<open>One attempt\<close>

datatype terminal_outcome = Committed | NotActive | SessionMissing | TerminalPersistFailed string pending_terminal

definition zero_usage :: json where
  "zero_usage = jobject [(''input_tokens'', json_of_nat 0), (''output_tokens'', json_of_nat 0), (''total_tokens'', json_of_nat 0)]"

text \<open>
  \<open>u 0\<close> to \<open>u 2\<close> are the UUIDs drawn for the message and the events, \<open>clk 0\<close> the terminal timestamp
  and \<open>clk 1\<close> the creation time of the message.
\<close>

definition completed_message ::
  "serde \<Rightarrow> string \<Rightarrow> string \<Rightarrow> string \<Rightarrow> session_record \<Rightarrow> string \<Rightarrow> u64 \<Rightarrow> session_message" where
  "completed_message sd run_id session_id output_text session uuid now =
     \<lparr>msg_id = uuid, msg_session_id = session_id, msg_role = ''assistant'',
      msg_content = decode_message_content (display sd) (from_value sd) (to_value sd) (JString output_text),
      msg_created_at = now, msg_run_id = Some run_id, msg_finish_reason = Some ''stop'', msg_name = None,
      msg_tool_call_id = None, msg_parent_id = None, msg_token_estimate = None, msg_metadata = JNull,
      msg_ordinal = Some (next_message_ordinal session)\<rparr>"

definition commit_completed_begin ::
  "serde \<Rightarrow> gateway_config \<Rightarrow> string \<Rightarrow> string \<Rightarrow> string \<Rightarrow> (nat \<Rightarrow> string) \<Rightarrow> (nat \<Rightarrow> u64) \<Rightarrow> service \<Rightarrow> terminal_outcome begun" where
  "commit_completed_begin sd cfg run_id session_id output_text u clk s =
     (case runs s run_id of
        None \<Rightarrow> Done NotActive
      | Some run \<Rightarrow>
          if status run \<noteq> ''started'' then Done NotActive
          else
            (case sessions s session_id of
               None \<Rightarrow> Done SessionMissing
             | Some session \<Rightarrow>
                 (let cand = (\<lambda>i event_type data. (event_candidate sd run event_type data (max_event_bytes cfg) (u i) (clk 0)));
                      message = completed_message sd run_id session_id output_text session (u 0) (clk 1);
                      delta = cand 1 ''message.delta'' (jobject [(''message_id'', JString (msg_id message)),
                        (''delta'', JString output_text), (''role'', JString ''assistant'')]);
                      completed = (\<lambda>output. cand 2 ''run.completed'' (jobject [(''status'', JString ''completed''),
                        (''output'', output), (''usage'', zero_usage)]))
                  in Reserve (InTerminal
                       (if list_ex (\<lambda>e. ev_type e = ''model.completed'') (events run)
                        then \<lparr>tq_run_id = run_id, tq_to_status = ''completed'', tq_session_id = Some session_id,
                              tq_events = [completed (jobject [(''text'', JString output_text)])], tq_message = None\<rparr>
                        else \<lparr>tq_run_id = run_id, tq_to_status = ''completed'', tq_session_id = Some session_id,
                              tq_events = [delta, (completed (jobject [(''message'', session_message_json message)]))
                                                    \<lparr>seq := seq delta + 1\<rparr>],
                              tq_message = Some message\<rparr>)))))"

definition commit_ended_begin ::
  "serde \<Rightarrow> gateway_config \<Rightarrow> string \<Rightarrow> string \<Rightarrow> string \<Rightarrow> json \<Rightarrow> string \<Rightarrow> u64 \<Rightarrow> service \<Rightarrow> terminal_outcome begun" where
  "commit_ended_begin sd cfg event_type to_status run_id data uuid now s =
     (case runs s run_id of
        None \<Rightarrow> Done NotActive
      | Some run \<Rightarrow>
          if run_is_terminal (status run) then Done NotActive
          else Reserve (InTerminal \<lparr>tq_run_id = run_id, tq_to_status = to_status, tq_session_id = None,
                 tq_events = [event_candidate sd run event_type data (max_event_bytes cfg) uuid now], tq_message = None\<rparr>))"

definition commit_cancelled_begin ::
  "serde \<Rightarrow> gateway_config \<Rightarrow> string \<Rightarrow> string \<Rightarrow> string \<Rightarrow> u64 \<Rightarrow> service \<Rightarrow> terminal_outcome begun" where
  "commit_cancelled_begin sd cfg run_id reason =
     commit_ended_begin sd cfg ''run.cancelled'' ''cancelled'' run_id
       (jobject [(''status'', JString ''cancelled''), (''reason'', JString reason)])"

definition commit_failed_begin ::
  "serde \<Rightarrow> gateway_config \<Rightarrow> string \<Rightarrow> json \<Rightarrow> string \<Rightarrow> u64 \<Rightarrow> service \<Rightarrow> terminal_outcome begun" where
  "commit_failed_begin sd cfg run_id data = commit_ended_begin sd cfg ''run.failed'' ''failed'' run_id data"

text \<open>
  The end of the three attempts: \<open>now\<close> is read for the message and \<open>instant\<close> for the deadline.
  The events are published as they were reserved.
\<close>

definition terminal_finish ::
  "serde \<Rightarrow> gateway_config \<Rightarrow> terminal_request \<Rightarrow> (persist_error, json) result \<Rightarrow> u64 \<Rightarrow> nat \<Rightarrow> service \<Rightarrow>
   terminal_outcome \<times> service" where
  "terminal_finish sd cfg tq answer now instant s =
     (let s = log_call cfg (terminal_call sd (tq_run_id tq) (tq_session_id tq) (tq_to_status tq) (tq_events tq)
                (tq_message tq) now) answer s in
      case terminal_seqs cfg (tq_events tq) answer of
        Inr seqs \<Rightarrow>
          (Committed, release (send_live (tq_run_id tq) (tq_events tq)
             (apply_terminal cfg (tq_run_id tq) (tq_to_status tq) (tq_events tq) seqs (tq_message tq) now s)))
      | Inl error \<Rightarrow>
          (let p = \<lparr>pt_to_status = tq_to_status tq, pt_session_id = tq_session_id tq, pt_events = tq_events tq,
                    pt_message = tq_message tq, pt_deadline = instant + terminal_commit_retry_window cfg\<rparr>
           in (TerminalPersistFailed (show_storage_error error) p,
               release (s\<lparr>parked := parked s @ [(tq_run_id tq, p)]\<rparr>))))"

subsection \<open>Pending terminals\<close>

definition register_pending_terminal :: "string \<Rightarrow> pending_terminal \<Rightarrow> service \<Rightarrow> service" where
  "register_pending_terminal run_id p s =
     (let s = set_status run_id ''terminal_pending'' s
      in s\<lparr>pending := (pending s)(run_id \<mapsto> p)\<rparr>)"

definition clear_pending_terminal :: "string \<Rightarrow> service \<Rightarrow> service" where
  "clear_pending_terminal run_id s = s\<lparr>pending := (pending s)(run_id := None)\<rparr>"

definition mark_terminal :: "string \<Rightarrow> service \<Rightarrow> service" where
  "mark_terminal run_id s =
     (case handles s run_id of
        None \<Rightarrow> s
      | Some h \<Rightarrow> s\<lparr>handles := (handles s)(run_id \<mapsto> h\<lparr>terminal_at := True\<rparr>)\<rparr>)"

datatype retry_outcome = RCommitted | Gone | Conflict | Expired | RetryFailed

definition retry_begin :: "string \<Rightarrow> nat \<Rightarrow> service \<Rightarrow> retry_outcome begun \<times> service" where
  "retry_begin run_id instant s =
     (case pending s run_id of
        None \<Rightarrow> (Done Gone, s)
      | Some p \<Rightarrow>
          (case runs s run_id of
             None \<Rightarrow> (Done Gone, clear_pending_terminal run_id s)
           | Some run \<Rightarrow>
               if status run \<noteq> ''terminal_pending'' then (Done Gone, clear_pending_terminal run_id s)
               else if pt_deadline p \<le> instant
               then (Done Expired, close_run_stream run_id (clear_pending_terminal run_id s))
               else (Reserve (InRetry run_id p), s)))"

definition retry_finish ::
  "serde \<Rightarrow> gateway_config \<Rightarrow> string \<Rightarrow> pending_terminal \<Rightarrow> (persist_error, json) result \<Rightarrow> u64 \<Rightarrow> service \<Rightarrow>
   retry_outcome \<times> service" where
  "retry_finish sd cfg run_id p answer now s =
     (let s = log_call cfg (terminal_call sd run_id (pt_session_id p) (pt_to_status p) (pt_events p) (pt_message p) now)
                answer s in
      case terminal_seqs cfg (pt_events p) answer of
        Inr seqs \<Rightarrow>
          (RCommitted, release (send_live run_id (map (resequence seqs) (pt_events p))
             (clear_pending_terminal run_id
               (apply_terminal cfg run_id (pt_to_status p) (pt_events p) seqs (pt_message p) now s))))
      | Inl error \<Rightarrow>
          if fst error = ''transition_conflict''
          then (Conflict, release (close_run_stream run_id (clear_pending_terminal run_id s)))
          else (RetryFailed, release s))"

definition retry_pending_terminal ::
  "serde \<Rightarrow> gateway_config \<Rightarrow> string \<Rightarrow> nat \<Rightarrow> (persist_error, json) result \<Rightarrow> u64 \<Rightarrow> service \<Rightarrow> retry_outcome \<times> service" where
  "retry_pending_terminal sd cfg run_id instant answer now s =
     (case retry_begin run_id instant s of
        (Reserve (InRetry r p), s) \<Rightarrow> retry_finish sd cfg run_id p answer now s
      | (Done out, s) \<Rightarrow> (out, s)
      | (_, s) \<Rightarrow> (Gone, s))"

text \<open>The retry loop over its ticks: \<open>None\<close> while it is still retrying when the ticks end.\<close>

record tick =
  tk_instant :: nat
  tk_answer :: "(persist_error, json) result"
  tk_now :: u64

fun terminal_retry_loop ::
  "serde \<Rightarrow> gateway_config \<Rightarrow> string \<Rightarrow> tick list \<Rightarrow> service \<Rightarrow> retry_outcome option \<times> service" where
  "terminal_retry_loop sd cfg run_id [] s = (None, s)"
| "terminal_retry_loop sd cfg run_id (t # ts) s =
     (case retry_pending_terminal sd cfg run_id (tk_instant t) (tk_answer t) (tk_now t) s of
        (RetryFailed, s) \<Rightarrow> terminal_retry_loop sd cfg run_id ts s
      | (out, s) \<Rightarrow> (Some out, s))"

subsection \<open>The bounded attempts\<close>

text \<open>
  What the environment supplies for one attempt. The loops run their attempts in order, with
  no other thread in between; \<open>spawn_terminal_retry\<close> starts the retry loop above.
\<close>

record attempt_env =
  at_u :: "nat \<Rightarrow> string"
  at_clk :: "nat \<Rightarrow> u64"
  at_answer :: "(persist_error, json) result"
  at_now :: u64
  at_instant :: nat

definition run_attempt ::
  "serde \<Rightarrow> gateway_config \<Rightarrow> attempt_env \<Rightarrow> terminal_outcome begun \<Rightarrow> service \<Rightarrow> terminal_outcome \<times> service" where
  "run_attempt sd cfg e b s =
     (case b of
        Reserve (InTerminal tq) \<Rightarrow> terminal_finish sd cfg tq (at_answer e) (at_now e) (at_instant e) s
      | Done out \<Rightarrow> (out, s)
      | _ \<Rightarrow> (NotActive, s))"

definition park :: "string \<Rightarrow> pending_terminal \<Rightarrow> service \<Rightarrow> service" where
  "park run_id p s = mark_terminal run_id (register_pending_terminal run_id p s)"

fun finish_ended ::
  "serde \<Rightarrow> gateway_config \<Rightarrow> (attempt_env \<Rightarrow> service \<Rightarrow> terminal_outcome begun) \<Rightarrow> string \<Rightarrow> nat \<Rightarrow> nat \<Rightarrow>
   (nat \<Rightarrow> attempt_env) \<Rightarrow> service \<Rightarrow> service" where
  "finish_ended sd cfg begin_once run_id attempt 0 env s = s"
| "finish_ended sd cfg begin_once run_id attempt (Suc remaining) env s =
     (case run_attempt sd cfg (env attempt) (begin_once (env attempt) s) s of
        (Committed, s) \<Rightarrow> mark_terminal run_id s
      | (TerminalPersistFailed error p, s) \<Rightarrow>
          if remaining \<noteq> 0 then finish_ended sd cfg begin_once run_id (attempt + 1) remaining env s
          else park run_id p s
      | (_, s) \<Rightarrow> s)"

definition finish_cancelled ::
  "serde \<Rightarrow> gateway_config \<Rightarrow> string \<Rightarrow> string \<Rightarrow> (nat \<Rightarrow> attempt_env) \<Rightarrow> service \<Rightarrow> service" where
  "finish_cancelled sd cfg run_id reason =
     finish_ended sd cfg (\<lambda>e. commit_cancelled_begin sd cfg run_id reason (at_u e 0) (at_clk e 0)) run_id 0
       (1 + terminal_persist_retries cfg)"

definition finish_failed ::
  "serde \<Rightarrow> gateway_config \<Rightarrow> string \<Rightarrow> json \<Rightarrow> (nat \<Rightarrow> attempt_env) \<Rightarrow> service \<Rightarrow> service" where
  "finish_failed sd cfg run_id data =
     finish_ended sd cfg (\<lambda>e. commit_failed_begin sd cfg run_id data (at_u e 0) (at_clk e 0)) run_id 0
       (1 + terminal_persist_retries cfg)"

definition handle_cancel_reason :: "run_handle option \<Rightarrow> string \<Rightarrow> string" where
  "handle_cancel_reason h fallback =
     (case h of None \<Rightarrow> fallback | Some h \<Rightarrow> (case cancel_reason h of Some r \<Rightarrow> r | None \<Rightarrow> fallback))"

text \<open>\<open>env2\<close> is the environment of the cancellation or failure that the loop may turn to.\<close>

fun finish_completed_from ::
  "serde \<Rightarrow> gateway_config \<Rightarrow> string \<Rightarrow> string \<Rightarrow> string \<Rightarrow> nat \<Rightarrow> nat \<Rightarrow> (nat \<Rightarrow> attempt_env) \<Rightarrow> (nat \<Rightarrow> attempt_env) \<Rightarrow>
   service \<Rightarrow> service" where
  "finish_completed_from sd cfg run_id session_id output_text attempt 0 env env2 s = s"
| "finish_completed_from sd cfg run_id session_id output_text attempt (Suc remaining) env env2 s =
     (case run_attempt sd cfg (env attempt)
             (commit_completed_begin sd cfg run_id session_id output_text (at_u (env attempt)) (at_clk (env attempt)) s) s of
        (Committed, s) \<Rightarrow> mark_terminal run_id s
      | (NotActive, s) \<Rightarrow> finish_cancelled sd cfg run_id (handle_cancel_reason (handles s run_id) ''requested'') env2 s
      | (SessionMissing, s) \<Rightarrow> finish_failed sd cfg run_id (failed_payload ''session not found'') env2 s
      | (TerminalPersistFailed error p, s) \<Rightarrow>
          if remaining \<noteq> 0
          then finish_completed_from sd cfg run_id session_id output_text (attempt + 1) remaining env env2 s
          else park run_id p s)"

definition finish_completed ::
  "serde \<Rightarrow> gateway_config \<Rightarrow> string \<Rightarrow> string \<Rightarrow> string \<Rightarrow> (nat \<Rightarrow> attempt_env) \<Rightarrow> (nat \<Rightarrow> attempt_env) \<Rightarrow> service \<Rightarrow> service" where
  "finish_completed sd cfg run_id session_id output_text =
     finish_completed_from sd cfg run_id session_id output_text 0 (1 + terminal_persist_retries cfg)"

subsection \<open>Stop and the worker's decision\<close>

definition stop :: "string \<Rightarrow> service \<Rightarrow> string option \<times> service" where
  "stop run_id s =
     (case handles s run_id of
        None \<Rightarrow> (None, s)
      | Some h \<Rightarrow>
          (let st = (case runs s run_id of Some run \<Rightarrow> status run | None \<Rightarrow> []) in
           if st = ''started''
           then (Some ''stopping'', (set_status run_id ''stopping'' s)
                  \<lparr>handles := (handles s)(run_id \<mapsto> h\<lparr>cancel_reason := Some ''requested'', cancel_requested := True\<rparr>)\<rparr>)
           else (Some st, s)))"

datatype worker_outcome = WCompleted vm_value | WCancelled string | WFailed string

text \<open>\<open>requested\<close> is the reason of a requested cancellation, \<open>deadline_passed\<close> the run's deadline.\<close>

definition interpret_loop_decision :: "serde \<Rightarrow> vm_value \<Rightarrow> string option \<Rightarrow> bool \<Rightarrow> worker_outcome" where
  "interpret_loop_decision sd v requested deadline_passed =
     (case requested of
        Some reason \<Rightarrow> WCancelled reason
      | None \<Rightarrow>
          if deadline_passed then WCancelled ''deadline''
          else
            (let j = vm_value_to_json (lossy sd) (display sd) v;
                 error_field = (\<lambda>k. Option.bind (jget ''error'' j) (str_field k))
             in if str_field ''kind'' j = Some ''run.failed''
                then
                  (let code = (case error_field ''code'' of Some c \<Rightarrow> c | None \<Rightarrow> ''failed'') in
                   if code = ''cancelled'' then WCancelled ''requested''
                   else if code = ''deadline_elapsed'' then WCancelled ''deadline''
                   else WFailed (case error_field ''message'' of Some m \<Rightarrow> m | None \<Rightarrow> code))
                else WCompleted v))"

definition completed_output_text :: "serde \<Rightarrow> vm_value \<Rightarrow> string" where
  "completed_output_text sd v =
     (let j = vm_value_to_json (lossy sd) (display sd) v in
      if str_field ''kind'' j = Some ''run.completed''
      then (case jget ''answer'' j of
              Some (JString answer) \<Rightarrow> answer
            | Some answer \<Rightarrow> display sd answer
            | None \<Rightarrow> display sd j)
      else display sd j)"

end
