(* ===== verification/Run_Safety.thy ===== *)
theory Run_Safety
  imports Run_Terminal
begin

section \<open>Interleavings and their invariant\<close>

text \<open>
  The step relation of the service state and the invariant behind the safety properties of
  run events. What a step relies on is a premise of its rule: a committer is not asked to
  commit a terminal event type, the UUIDs of one attempt differ, an admitted run id is new,
  and \<open>run.terminal\<close> answers with success at most once per run, with sequence numbers above
  those the run has (\<open>terminal_contract\<close>).
\<close>

subsection \<open>Steps\<close>

definition terminal_durable :: "string \<Rightarrow> service \<Rightarrow> bool" where
  "terminal_durable r s \<longleftrightarrow>
     (\<exists>c \<in> set (durable s). call_op c = RunTerminal \<and> jget ''run_id'' (call_payload c) = Some (JString r))"

definition after_all :: "run_record \<Rightarrow> gateway_event list \<Rightarrow> bool" where
  "after_all run evs \<longleftrightarrow> sorted_wrt (<) (map seq evs) \<and> (\<forall>e \<in> set evs. \<forall>x \<in> set (events run). seq x < seq e)"

definition terminal_contract ::
  "gateway_config \<Rightarrow> string \<Rightarrow> gateway_event list \<Rightarrow> (persist_error, json) result \<Rightarrow> service \<Rightarrow> bool" where
  "terminal_contract cfg r evs answer s \<longleftrightarrow>
     (has_persistence cfg \<longrightarrow>
       (\<forall>seqs. terminal_seqs cfg evs answer = Inr seqs \<longrightarrow>
         \<not> terminal_durable r s \<and>
         (\<forall>run. runs s r = Some run \<longrightarrow> after_all run (map (resequence seqs) evs))))"

definition of_run :: "string \<Rightarrow> gateway_event list \<Rightarrow> gateway_event list" where
  "of_run r evs = filter (\<lambda>e. ev_run_id e = r) evs"

definition fresh_run :: "gateway_config \<Rightarrow> string \<Rightarrow> run_record \<Rightarrow> service \<Rightarrow> bool" where
  "fresh_run cfg r run s \<longleftrightarrow>
     runs s r = None \<and> rr_run_id run = r \<and> status run = ''started'' \<and> sender run \<and>
     length (events run) \<le> max_events_per_run cfg \<and> sorted_wrt (<) (map seq (events run))"

definition empty_service :: service where
  "empty_service = \<lparr>runs = Map.empty, sessions = Map.empty, handles = Map.empty, pending = Map.empty, gate = None,
     sending = [], parked = [], durable = [], recorded = [], published = []\<rparr>"

abbreviation terminal_types :: "string set" where
  "terminal_types \<equiv> {''run.completed'', ''run.cancelled'', ''run.failed''}"

inductive svc_step :: "serde \<Rightarrow> gateway_config \<Rightarrow> service \<Rightarrow> service \<Rightarrow> bool" for sd cfg where
  admit: "fresh_run cfg r run s \<Longrightarrow>
    svc_step sd cfg s (s\<lparr>runs := (runs s)(r \<mapsto> run), handles := (handles s)(r \<mapsto> h)\<rparr>)"
| session_write: "svc_step sd cfg s (s\<lparr>sessions := ss\<rparr>)"
| deliver: "gate s = None \<Longrightarrow> validate_script_event v = Inr t \<Longrightarrow>
    deliver_begin sd cfg r t (script_event_data sd v) uuid now now_ms s = Reserve i \<Longrightarrow>
    svc_step sd cfg s (s\<lparr>gate := Some i\<rparr>)"
| deliver_end: "gate s = Some (InDeliver r rc) \<Longrightarrow> svc_step sd cfg s (snd (deliver_finish cfg r rc answer s))"
| deliver_send: "ev \<in> set (sending s) \<Longrightarrow> svc_step sd cfg s (Run_Commit.deliver_send ev s)"
| commit_step: "gate s = None \<Longrightarrow> t \<notin> terminal_types \<Longrightarrow>
    commit_step_begin sd cfg r seen t data res uuid clk s = Reserve i \<Longrightarrow> svc_step sd cfg s (s\<lparr>gate := Some i\<rparr>)"
| commit_end: "gate s = Some (InCommit rc) \<Longrightarrow> svc_step sd cfg s (snd (persist_and_apply cfg rc answer now s))"
| commit_pair: "gate s = None \<Longrightarrow> fst a \<notin> terminal_types \<Longrightarrow> fst b \<notin> terminal_types \<Longrightarrow>
    commit_pair_begin sd cfg r seen a b uuid1 uuid2 clk s = Reserve i \<Longrightarrow> svc_step sd cfg s (s\<lparr>gate := Some i\<rparr>)"
| pair_end: "gate s = Some (InPair rp) \<Longrightarrow> svc_step sd cfg s (snd (persist_and_apply_pair cfg rp answer s))"
| completed: "gate s = None \<Longrightarrow> u 1 \<noteq> u 2 \<Longrightarrow>
    commit_completed_begin sd cfg r sid text u clk s = Reserve i \<Longrightarrow> svc_step sd cfg s (s\<lparr>gate := Some i\<rparr>)"
| cancelled: "gate s = None \<Longrightarrow> commit_cancelled_begin sd cfg r reason uuid now s = Reserve i \<Longrightarrow>
    svc_step sd cfg s (s\<lparr>gate := Some i\<rparr>)"
| failed: "gate s = None \<Longrightarrow> commit_failed_begin sd cfg r data uuid now s = Reserve i \<Longrightarrow>
    svc_step sd cfg s (s\<lparr>gate := Some i\<rparr>)"
| terminal_end: "gate s = Some (InTerminal tq) \<Longrightarrow> terminal_contract cfg (tq_run_id tq) (tq_events tq) answer s \<Longrightarrow>
    svc_step sd cfg s (snd (terminal_finish sd cfg tq answer now instant s))"
| register: "(r, p) \<in> set (parked s) \<Longrightarrow> svc_step sd cfg s (register_pending_terminal r p s)"
| retry_done: "gate s = None \<Longrightarrow> retry_begin r instant s = (Done out, s') \<Longrightarrow> svc_step sd cfg s s'"
| retry: "gate s = None \<Longrightarrow> retry_begin r instant s = (Reserve i, s') \<Longrightarrow> svc_step sd cfg s (s'\<lparr>gate := Some i\<rparr>)"
| retry_end: "gate s = Some (InRetry r p) \<Longrightarrow> terminal_contract cfg r (pt_events p) answer s \<Longrightarrow>
    svc_step sd cfg s (snd (retry_finish sd cfg r p answer now s))"
| stop: "svc_step sd cfg s (snd (Run_Terminal.stop r s))"
| mark_terminal: "svc_step sd cfg s (Run_Terminal.mark_terminal r s)"

inductive reachable :: "serde \<Rightarrow> gateway_config \<Rightarrow> service \<Rightarrow> bool" for sd cfg where
  start: "reachable sd cfg empty_service"
| step: "reachable sd cfg s \<Longrightarrow> svc_step sd cfg s s' \<Longrightarrow> reachable sd cfg s'"

subsection \<open>The invariant\<close>

definition order_ok :: "gateway_config \<Rightarrow> string \<Rightarrow> run_record \<Rightarrow> gateway_event list \<Rightarrow> bool" where
  "order_ok cfg r run rec \<longleftrightarrow>
     rr_run_id run = r \<and> length (events run) \<le> max_events_per_run cfg \<and> sorted_wrt (<) (map seq (events run)) \<and>
     sorted_wrt (<) (map seq (of_run r rec)) \<and>
     (\<forall>e \<in> set (of_run r rec). events run \<noteq> [] \<and> seq e \<le> seq (last (events run)) \<and>
        (seq (hd (events run)) \<le> seq e \<longrightarrow> e \<in> set (events run)))"

definition record_ok :: "gateway_config \<Rightarrow> service \<Rightarrow> bool" where
  "record_ok cfg s \<longleftrightarrow>
     (\<forall>r. case runs s r of
            Some run \<Rightarrow> order_ok cfg r run (recorded s) \<and> (\<not> sender run \<longrightarrow> run_is_terminal (status run))
          | None \<Rightarrow> of_run r (recorded s) = [])"

definition terminal_recorded :: "string \<Rightarrow> service \<Rightarrow> bool" where
  "terminal_recorded r s \<longleftrightarrow> (\<exists>e \<in> set (of_run r (recorded s)). event_is_terminal e)"

definition terminal_last :: "gateway_event list \<Rightarrow> bool" where
  "terminal_last evs \<longleftrightarrow> sorted_wrt (\<lambda>e _. \<not> event_is_terminal e) evs"

definition run_ended :: "string \<Rightarrow> service \<Rightarrow> bool" where
  "run_ended r s \<longleftrightarrow> (\<exists>run. runs s r = Some run \<and> run_is_terminal (status run))"

definition terminal_ok :: "gateway_config \<Rightarrow> service \<Rightarrow> bool" where
  "terminal_ok cfg s \<longleftrightarrow>
     (\<forall>r. terminal_last (of_run r (recorded s)) \<and>
       (terminal_recorded r s \<longrightarrow> run_ended r s \<and> (has_persistence cfg \<longrightarrow> terminal_durable r s)))"

definition batch_ok :: "string \<Rightarrow> gateway_event list \<Rightarrow> bool" where
  "batch_ok r evs \<longleftrightarrow> length evs \<le> 2 \<and> terminal_last evs \<and> (\<forall>e \<in> set evs. ev_run_id e = r)"

definition pending_ok :: "gateway_config \<Rightarrow> service \<Rightarrow> bool" where
  "pending_ok cfg s \<longleftrightarrow>
     (\<forall>r p. pending s r = Some p \<or> (r, p) \<in> set (parked s) \<longrightarrow>
       has_persistence cfg \<and> batch_ok r (pt_events p) \<and> run_is_terminal (pt_to_status p))"

definition call_ids :: "json \<Rightarrow> string set" where
  "call_ids payload =
     {i. \<exists>k \<in> {''event_id'', ''event_id_a'', ''event_id_b'', ''event_1_id'', ''event_2_id''}. str_field k payload = Some i}"

definition durable_ids :: "service \<Rightarrow> string set" where
  "durable_ids s = (\<Union>c \<in> set (durable s). call_ids (call_payload c))"

definition visible_durable :: "gateway_config \<Rightarrow> service \<Rightarrow> bool" where
  "visible_durable cfg s \<longleftrightarrow>
     (has_persistence cfg \<longrightarrow>
       event_id ` (set (recorded s) \<union> set (published s) \<union> set (sending s)) \<subseteq> durable_ids s)"

text \<open>A reservation for run \<open>r\<close>: its events come after all the run has, and the run has no terminal event.\<close>

definition reserved_ok :: "string \<Rightarrow> gateway_event list \<Rightarrow> service \<Rightarrow> bool" where
  "reserved_ok r evs s \<longleftrightarrow>
     (\<exists>run. runs s r = Some run \<and> after_all run evs) \<and> batch_ok r evs \<and> \<not> terminal_recorded r s"

definition no_terminal :: "gateway_event list \<Rightarrow> bool" where
  "no_terminal evs \<longleftrightarrow> (\<forall>e \<in> set evs. \<not> event_is_terminal e)"

fun inflight_ok :: "gateway_config \<Rightarrow> service \<Rightarrow> inflight \<Rightarrow> bool" where
  "inflight_ok cfg s (InDeliver r rc) \<longleftrightarrow>
     reserved_ok r [rc_event rc] s \<and> no_terminal [rc_event rc] \<and> event_id (rc_event rc) \<in> call_ids (call_payload (rc_call rc)) \<and>
     (\<exists>run. runs s r = Some run \<and> sender run)"
| "inflight_ok cfg s (InCommit rc) \<longleftrightarrow>
     reserved_ok (ev_run_id (rc_event rc)) [rc_event rc] s \<and> no_terminal [rc_event rc] \<and>
     event_id (rc_event rc) \<in> call_ids (call_payload (rc_call rc))"
| "inflight_ok cfg s (InPair rp) \<longleftrightarrow>
     reserved_ok (ev_run_id (rp_first rp)) [rp_first rp, rp_second rp] s \<and> no_terminal [rp_first rp, rp_second rp] \<and>
     {event_id (rp_first rp), event_id (rp_second rp)} \<subseteq> call_ids (call_payload (rp_call rp))"
| "inflight_ok cfg s (InTerminal tq) \<longleftrightarrow>
     reserved_ok (tq_run_id tq) (tq_events tq) s \<and> distinct (map event_id (tq_events tq)) \<and> run_is_terminal (tq_to_status tq)"
| "inflight_ok cfg s (InRetry r p) \<longleftrightarrow>
     run_ended r s \<and> has_persistence cfg \<and> batch_ok r (pt_events p) \<and> run_is_terminal (pt_to_status p)"

definition svc_inv :: "gateway_config \<Rightarrow> service \<Rightarrow> bool" where
  "svc_inv cfg s \<longleftrightarrow>
     record_ok cfg s \<and> terminal_ok cfg s \<and> pending_ok cfg s \<and> visible_durable cfg s \<and>
     (case gate s of None \<Rightarrow> True | Some i \<Rightarrow> inflight_ok cfg s i)"

definition svc_core :: "gateway_config \<Rightarrow> service \<Rightarrow> bool" where
  "svc_core cfg s \<longleftrightarrow> record_ok cfg s \<and> terminal_ok cfg s \<and> pending_ok cfg s \<and> visible_durable cfg s"

definition gate_ok :: "gateway_config \<Rightarrow> service \<Rightarrow> bool" where
  "gate_ok cfg s \<longleftrightarrow> (case gate s of None \<Rightarrow> True | Some i \<Rightarrow> inflight_ok cfg s i)"

lemma svc_inv_split: "svc_inv cfg s \<longleftrightarrow> svc_core cfg s \<and> gate_ok cfg s"
  by (auto simp: svc_inv_def svc_core_def gate_ok_def)

subsection \<open>Pushing events\<close>

lemma retained_suffix:
  assumes "sorted_wrt (<) (map seq es)" "seq (hd es) \<le> seq e \<longrightarrow> e \<in> set es" "seq (hd (drop k es @ [ev])) \<le> seq e" "seq e < seq ev"
  shows "e \<in> set (drop k es)"
proof (cases "drop k es")
  case Nil
  then show ?thesis using assms(3,4) by simp
next
  case (Cons x xs)
  have es: "es = take k es @ x # xs" using append_take_drop_id [of k es] Cons by simp
  have sorted: "sorted_wrt (<) (map seq (take k es @ x # xs))" using assms(1) es by simp
  have "seq (hd es) \<le> seq x"
    using sorted es by (cases "take k es") (auto simp: sorted_wrt_append)
  then have "e \<in> set es" using assms(2,3) Cons by simp
  moreover have "e \<notin> set (take k es)" using sorted assms(3) Cons by (auto simp: sorted_wrt_append)
  ultimately show ?thesis using es Cons by (metis Un_iff set_append)
qed

lemma order_step:
  assumes ok: "order_ok cfg r run rec" and pos: "0 < max_events_per_run cfg"
    and after: "\<forall>x \<in> set (events run). seq x < seq ev" and r: "ev_run_id ev = r"
  shows "order_ok cfg r (apply_event_locked (max_events_per_run cfg) ev run)
    (rec @ (if list_ex (\<lambda>x. event_id x = event_id ev) (events run) then [] else [ev]))"
proof (cases "list_ex (\<lambda>x. event_id x = event_id ev) (events run)")
  case True
  then show ?thesis using ok by (simp add: apply_event_locked_def)
next
  case False
  let ?m = "max_events_per_run cfg" and ?es = "events run"
  let ?k = "Suc (length ?es) - ?m"
  have es: "events (apply_event_locked ?m ev run) = drop ?k ?es @ [ev]"
    using False pos by (simp add: apply_event_locked_def Let_def)
  have sorted: "sorted_wrt (<) (map seq (drop ?k ?es @ [ev]))"
    using ok after sorted_wrt_drop [of "(<)" "map seq ?es" ?k]
    by (auto simp: order_ok_def sorted_wrt_append drop_map dest: in_set_dropD)
  have rec: "\<forall>e \<in> set (of_run r rec). seq e < seq ev"
    using ok after last_in_set [of ?es] unfolding order_ok_def by (meson le_less_trans)
  have kept: "e \<in> set (drop ?k ?es)" if e: "e \<in> set (of_run r rec)" and hd: "seq (hd (drop ?k ?es @ [ev])) \<le> seq e" for e
    using ok e hd rec by (intro retained_suffix) (auto simp: order_ok_def)
  show ?thesis
    using False ok r es sorted rec kept apply_event_locked_bound [of run ?m ev]
    by (auto simp: order_ok_def of_run_def sorted_wrt_append)
qed

lemma after_step: "after_all run (ev # evs) \<Longrightarrow> after_all (apply_event_locked m ev run) evs"
  using apply_event_locked_set [of m ev run] by (auto simp: after_all_def)

lemma of_run_append [simp]: "of_run r (xs @ ys) = of_run r xs @ of_run r ys"
  by (simp add: of_run_def)

lemma of_run_other [simp]: "\<forall>e \<in> set ys. ev_run_id e = r \<Longrightarrow> r' \<noteq> r \<Longrightarrow> of_run r' ys = []"
  by (auto simp: of_run_def)

lemma of_run_same: "\<forall>e \<in> set ys. ev_run_id e = r \<Longrightarrow> of_run r ys = ys"
  by (auto simp: of_run_def)

lemma order_ok_other: "\<forall>e \<in> set ys. ev_run_id e = r \<Longrightarrow> r' \<noteq> r \<Longrightarrow> order_ok cfg r' run (rec @ ys) = order_ok cfg r' run rec"
  using of_run_other [of ys r r'] by (simp add: order_ok_def)

lemma record_okI:
  "(\<And>r. runs s r = None \<Longrightarrow> of_run r (recorded s) = []) \<Longrightarrow>
   (\<And>r run. runs s r = Some run \<Longrightarrow> order_ok cfg r run (recorded s) \<and> (\<not> sender run \<longrightarrow> run_is_terminal (status run))) \<Longrightarrow>
   record_ok cfg s"
  by (auto simp: record_ok_def split: option.split)

lemma record_ok_none: "record_ok cfg s \<Longrightarrow> runs s r = None \<Longrightarrow> of_run r (recorded s) = []"
  by (auto simp: record_ok_def split: option.splits dest: spec [of _ r])

lemma record_ok_some:
  "record_ok cfg s \<Longrightarrow> runs s r = Some run \<Longrightarrow>
   order_ok cfg r run (recorded s) \<and> (\<not> sender run \<longrightarrow> run_is_terminal (status run))"
  by (auto simp: record_ok_def split: option.splits)

lemma apply_event_record_ok:
  assumes "record_ok cfg s" "runs s r = Some run" "0 < max_events_per_run cfg"
    "\<forall>x \<in> set (events run). seq x < seq ev" "ev_run_id ev = r"
  shows "record_ok cfg (apply_event cfg r ev s)"
proof -
  have new: "order_ok cfg r (apply_event_locked (max_events_per_run cfg) ev run)
      (recorded s @ (if list_ex (\<lambda>x. event_id x = event_id ev) (events run) then [] else [ev]))"
    using order_step assms record_ok_some by blast
  let ?z = "if list_ex (\<lambda>x. event_id x = event_id ev) (events run) then [] else [ev]"
  have z: "\<forall>e \<in> set ?z. ev_run_id e = r" using assms(5) by simp
  have s': "apply_event cfg r ev s =
      s\<lparr>runs := (runs s)(r \<mapsto> apply_event_locked (max_events_per_run cfg) ev run), recorded := recorded s @ ?z\<rparr>"
    using assms(2) by (simp add: apply_event_def)
  show ?thesis
  proof (rule record_okI)
    fix r' assume "runs (apply_event cfg r ev s) r' = None"
    then have "r' \<noteq> r" "runs s r' = None" using s' by (auto split: if_splits)
    then show "of_run r' (recorded (apply_event cfg r ev s)) = []"
      using record_ok_none [OF assms(1)] of_run_other [OF z] s' by simp
  next
    fix r' run' assume "runs (apply_event cfg r ev s) r' = Some run'"
    then show "order_ok cfg r' run' (recorded (apply_event cfg r ev s)) \<and> (\<not> sender run' \<longrightarrow> run_is_terminal (status run'))"
      using s' new record_ok_some [OF assms(1)] assms(2) order_ok_other [OF z] by (cases "r' = r") auto
  qed
qed

lemma apply_events_shape:
  "runs s r = Some run \<Longrightarrow>
   \<exists>run' zs. fold (apply_event cfg r) evs s = s\<lparr>runs := (runs s)(r \<mapsto> run'), recorded := recorded s @ zs\<rparr> \<and>
     status run' = status run \<and> sender run' = sender run \<and> set zs \<subseteq> set evs"
proof (induction evs arbitrary: s run)
  case Nil
  have "(runs s)(r \<mapsto> run) = runs s" using Nil by (rule fun_upd_idem)
  then show ?case by (intro exI [of _ run] exI [of _ "[]"]) (simp del: fun_upd_apply)
next
  case (Cons ev evs)
  let ?z = "if list_ex (\<lambda>x. event_id x = event_id ev) (events run) then [] else [ev]"
  let ?run1 = "apply_event_locked (max_events_per_run cfg) ev run"
  let ?s1 = "s\<lparr>runs := (runs s)(r \<mapsto> ?run1), recorded := recorded s @ ?z\<rparr>"
  have s1: "apply_event cfg r ev s = ?s1" using Cons.prems by (simp add: apply_event_def)
  have "runs ?s1 r = Some ?run1" by simp
  from Cons.IH [OF this] obtain run' zs where "fold (apply_event cfg r) evs ?s1 = ?s1\<lparr>runs := (runs ?s1)(r \<mapsto> run'), recorded := recorded ?s1 @ zs\<rparr>"
    "status run' = status ?run1" "sender run' = sender ?run1" "set zs \<subseteq> set evs"
    by blast
  then show ?case
    using s1 by (intro exI [of _ run'] exI [of _ "?z @ zs"]) (auto simp del: fun_upd_apply)
qed

lemma apply_events_record_ok:
  "record_ok cfg s \<Longrightarrow> runs s r = Some run \<Longrightarrow> 0 < max_events_per_run cfg \<Longrightarrow> after_all run evs \<Longrightarrow>
   \<forall>e \<in> set evs. ev_run_id e = r \<Longrightarrow> record_ok cfg (fold (apply_event cfg r) evs s)"
proof (induction evs arbitrary: s run)
  case (Cons ev evs)
  have "record_ok cfg (apply_event cfg r ev s)"
    by (rule apply_event_record_ok [OF Cons.prems(1-3)]) (use Cons.prems in \<open>auto simp: after_all_def\<close>)
  moreover have "runs (apply_event cfg r ev s) r = Some (apply_event_locked (max_events_per_run cfg) ev run)"
    using Cons.prems(2) by (simp add: apply_event_def)
  ultimately show ?case
    using Cons.IH Cons.prems after_step by simp
qed simp

lemma apply_events_terminal_last:
  "runs s r = Some run \<Longrightarrow> \<not> terminal_recorded r s \<Longrightarrow> terminal_last evs \<Longrightarrow> \<forall>e \<in> set evs. ev_run_id e = r \<Longrightarrow>
   terminal_last (of_run r (recorded (fold (apply_event cfg r) evs s)))"
proof (induction evs arbitrary: s run)
  case Nil
  then show ?case by (auto simp: terminal_last_def terminal_recorded_def sorted_wrt_iff_nth_less)
next
  case (Cons ev evs)
  have run1: "runs (apply_event cfg r ev s) r = Some (apply_event_locked (max_events_per_run cfg) ev run)"
    using Cons.prems(1) by (simp add: apply_event_def)
  have old: "terminal_last (of_run r (recorded s))" "\<forall>e \<in> set (of_run r (recorded s)). \<not> event_is_terminal e"
    using Cons.prems(2) by (auto simp: terminal_last_def terminal_recorded_def sorted_wrt_iff_nth_less)
  show ?case
  proof (cases "event_is_terminal ev")
    case True
    then have "evs = []" using Cons.prems(3) by (cases evs) (auto simp: terminal_last_def)
    then show ?thesis
      using old Cons.prems(1,4) by (auto simp: apply_event_def terminal_last_def sorted_wrt_append of_run_def)
  next
    case False
    then have "\<not> terminal_recorded r (apply_event cfg r ev s)"
      using Cons.prems(1,2) by (auto simp: apply_event_def terminal_recorded_def of_run_def)
    then show ?thesis
      using Cons.IH [OF run1] Cons.prems(3,4) by (simp add: terminal_last_def)
  qed
qed

subsection \<open>What each piece of an operation keeps\<close>

lemma call_ids_field:
  "str_field k payload = Some i \<Longrightarrow> k \<in> {''event_id'', ''event_id_a'', ''event_id_b'', ''event_1_id'', ''event_2_id''} \<Longrightarrow>
   i \<in> call_ids payload"
  unfolding call_ids_def by blast

lemma terminal_recorded_cong: "recorded s' = recorded s \<Longrightarrow> terminal_recorded r s' = terminal_recorded r s"
  by (simp add: terminal_recorded_def)

lemma log_call_fields [simp]:
  "runs (log_call cfg c a s) = runs s" "sessions (log_call cfg c a s) = sessions s" "recorded (log_call cfg c a s) = recorded s"
  "pending (log_call cfg c a s) = pending s" "parked (log_call cfg c a s) = parked s" "gate (log_call cfg c a s) = gate s"
  "published (log_call cfg c a s) = published s" "sending (log_call cfg c a s) = sending s" "handles (log_call cfg c a s) = handles s"
  by (simp_all add: log_call_def)

lemma release_fields [simp]:
  "runs (release s) = runs s" "recorded (release s) = recorded s" "pending (release s) = pending s"
  "parked (release s) = parked s" "gate (release s) = None" "published (release s) = published s"
  "sending (release s) = sending s" "durable (release s) = durable s"
  by (simp_all add: release_def)

lemma record_ok_cong: "runs s' = runs s \<Longrightarrow> recorded s' = recorded s \<Longrightarrow> record_ok cfg s' = record_ok cfg s"
  by (simp add: record_ok_def cong: option.case_cong)

lemma pending_ok_cong: "pending s' = pending s \<Longrightarrow> parked s' = parked s \<Longrightarrow> pending_ok cfg s' = pending_ok cfg s"
  by (simp add: pending_ok_def)

lemma core_cong:
  assumes "svc_core cfg s" "runs s' = runs s" "recorded s' = recorded s" "pending s' = pending s" "parked s' = parked s"
    "set (durable s) \<subseteq> set (durable s')" "set (published s') \<union> set (sending s') \<subseteq> set (published s) \<union> set (sending s) \<union> set evs"
    "has_persistence cfg \<Longrightarrow> event_id ` set evs \<subseteq> durable_ids s'"
  shows "svc_core cfg s'"
proof -
  have "durable_ids s \<subseteq> durable_ids s'" using assms(6) by (auto simp: durable_ids_def)
  then have "visible_durable cfg s'"
    using assms(1,3,7,8) unfolding svc_core_def visible_durable_def by (auto simp: image_subset_iff subset_iff)
  moreover have "record_ok cfg s'" "pending_ok cfg s'"
    using assms(1) record_ok_cong [OF assms(2,3)] pending_ok_cong [OF assms(4,5)] by (simp_all add: svc_core_def)
  moreover have "terminal_durable r s \<Longrightarrow> terminal_durable r s'" "run_ended r s' = run_ended r s" for r
    using assms(2,6) by (auto simp: terminal_durable_def run_ended_def)
  then have "terminal_ok cfg s'"
    using assms(1,3) unfolding svc_core_def terminal_ok_def terminal_recorded_def by metis
  ultimately show ?thesis by (simp add: svc_core_def)
qed

lemma log_core: "svc_core cfg s \<Longrightarrow> svc_core cfg (log_call cfg c a s)"
  by (rule core_cong [where evs = "[]" and s = s]) (auto simp: log_call_def)

lemma release_core: "svc_core cfg s \<Longrightarrow> svc_core cfg (release s)"
  by (rule core_cong [where evs = "[]" and s = s]) auto

lemma send_live_core:
  "svc_core cfg s \<Longrightarrow> (has_persistence cfg \<Longrightarrow> event_id ` set evs \<subseteq> durable_ids s) \<Longrightarrow> svc_core cfg (send_live r evs s)"
  by (rule core_cong [where evs = evs and s = s])
     (auto simp: send_live_def durable_ids_def split: option.splits)

lemma sessions_core: "svc_core cfg s \<Longrightarrow> svc_core cfg (s\<lparr>sessions := x\<rparr>)"
  by (rule core_cong [where evs = "[]" and s = s]) auto

text \<open>A run whose status or channel changes, with the same events.\<close>

lemma run_update_record_ok:
  assumes rec: "record_ok cfg s" and run: "runs s r = Some run"
    and same: "events run' = events run" "rr_run_id run' = rr_run_id run"
    and closed: "\<not> sender run' \<longrightarrow> run_is_terminal (status run')"
  shows "record_ok cfg (s\<lparr>runs := (runs s)(r \<mapsto> run')\<rparr>)" (is "record_ok cfg ?s'")
proof (rule record_okI)
  fix r' assume "runs ?s' r' = None"
  then show "of_run r' (recorded ?s') = []" using record_ok_none [OF rec] by (auto split: if_splits)
next
  fix r' run2 assume "runs ?s' r' = Some run2"
  then show "order_ok cfg r' run2 (recorded ?s') \<and> (\<not> sender run2 \<longrightarrow> run_is_terminal (status run2))"
    using record_ok_some [OF rec run] record_ok_some [OF rec, of r' run2] same closed
    by (auto simp: order_ok_def split: if_splits)
qed

lemma run_update_core:
  assumes core: "svc_core cfg s" and run: "runs s r = Some run"
    and same: "events run' = events run" "rr_run_id run' = rr_run_id run"
    and closed: "\<not> sender run' \<longrightarrow> run_is_terminal (status run')"
    and ended: "run_is_terminal (status run) \<longrightarrow> run_is_terminal (status run')"
  shows "svc_core cfg (s\<lparr>runs := (runs s)(r \<mapsto> run')\<rparr>)" (is "svc_core cfg ?s'")
proof -
  have "record_ok cfg ?s'" using run_update_record_ok [OF _ run same closed] core by (simp add: svc_core_def)
  moreover have "run_ended r' s \<longrightarrow> run_ended r' ?s'" for r'
    using run ended by (auto simp: run_ended_def)
  ultimately show ?thesis
    using core
    by (simp add: svc_core_def terminal_ok_def pending_ok_def visible_durable_def terminal_recorded_def
        terminal_durable_def durable_ids_def)
qed

lemma set_status_core: "svc_core cfg s \<Longrightarrow> run_is_terminal st \<Longrightarrow> svc_core cfg (set_status r st s)"
  by (auto simp: set_status_def split: option.split intro!: run_update_core)

lemma close_core: "svc_core cfg s \<Longrightarrow> run_ended r s \<Longrightarrow> svc_core cfg (close_run_stream r s)"
  by (auto simp: close_run_stream_def run_ended_def split: option.split intro!: run_update_core)

lemma clear_core: "svc_core cfg s \<Longrightarrow> svc_core cfg (clear_pending_terminal r s)"
  using record_ok_cong [of "clear_pending_terminal r s" s cfg]
  by (simp add: svc_core_def clear_pending_terminal_def terminal_ok_def pending_ok_def visible_durable_def
      terminal_recorded_def run_ended_def terminal_durable_def durable_ids_def)

lemma fold_apply_recorded:
  "runs s r = Some run \<Longrightarrow> \<forall>e \<in> set evs. ev_run_id e = r \<Longrightarrow> r' \<noteq> r \<Longrightarrow>
   of_run r' (recorded (fold (apply_event cfg r) evs s)) = of_run r' (recorded s)"
  using apply_events_shape [of s r run cfg evs] of_run_other [of _ r r'] by fastforce

lemma fold_apply_visible:
  assumes "runs s r = Some run" "visible_durable cfg s" "has_persistence cfg \<Longrightarrow> event_id ` set evs \<subseteq> durable_ids s"
  shows "visible_durable cfg (fold (apply_event cfg r) evs s)"
  using assms apply_events_shape [of s r run cfg evs]
  by (fastforce simp: visible_durable_def durable_ids_def)

text \<open>After a batch: everything but the status of the run.\<close>

lemma apply_batch:
  assumes core: "svc_core cfg s" and pos: "0 < max_events_per_run cfg" and run: "runs s r = Some run"
    and after: "after_all run evs" and batch: "batch_ok r evs" and open_run: "\<not> terminal_recorded r s"
    and ids: "has_persistence cfg \<Longrightarrow> event_id ` set evs \<subseteq> durable_ids s"
  defines "s' \<equiv> fold (apply_event cfg r) evs s"
  shows "record_ok cfg s'" "pending_ok cfg s'" "visible_durable cfg s'" "terminal_last (of_run r' (recorded s'))"
    "terminal_recorded r' s' \<Longrightarrow> r' \<noteq> r \<Longrightarrow> terminal_recorded r' s"
    "no_terminal evs \<Longrightarrow> \<not> terminal_recorded r s'"
proof -
  have rid: "\<forall>e \<in> set evs. ev_run_id e = r" and tl: "terminal_last evs" using batch by (auto simp: batch_ok_def)
  obtain run' zs where s': "s' = s\<lparr>runs := (runs s)(r \<mapsto> run'), recorded := recorded s @ zs\<rparr>" and zs: "set zs \<subseteq> set evs"
    using apply_events_shape [OF run] unfolding s'_def by blast
  show "record_ok cfg s'"
    using apply_events_record_ok core run pos after rid unfolding s'_def svc_core_def by blast
  show "pending_ok cfg s'" using core s' by (simp add: svc_core_def pending_ok_def)
  show "visible_durable cfg s'"
    using fold_apply_visible [OF run] core ids unfolding s'_def svc_core_def by blast
  show "terminal_last (of_run r' (recorded s'))"
    using fold_apply_recorded [OF run rid, of r'] apply_events_terminal_last [OF run open_run tl rid] core
    unfolding s'_def svc_core_def terminal_ok_def by (cases "r' = r") auto
  show "terminal_recorded r' s' \<Longrightarrow> r' \<noteq> r \<Longrightarrow> terminal_recorded r' s"
    using fold_apply_recorded [OF run rid, of r'] by (simp add: s'_def terminal_recorded_def)
  show "no_terminal evs \<Longrightarrow> \<not> terminal_recorded r s'"
    using open_run zs s' by (auto simp: terminal_recorded_def no_terminal_def of_run_def)
qed

lemma apply_batch_core:
  assumes "svc_core cfg s" "0 < max_events_per_run cfg" "reserved_ok r evs s" "no_terminal evs"
    "has_persistence cfg \<Longrightarrow> event_id ` set evs \<subseteq> durable_ids s"
  shows "svc_core cfg (fold (apply_event cfg r) evs s)"
proof -
  obtain run where run: "runs s r = Some run" "after_all run evs" "batch_ok r evs" "\<not> terminal_recorded r s"
    using assms(3) by (auto simp: reserved_ok_def)
  note batch = apply_batch [OF assms(1,2) run(1-4) assms(5)]
  obtain run' zs where "fold (apply_event cfg r) evs s = s\<lparr>runs := (runs s)(r \<mapsto> run'), recorded := recorded s @ zs\<rparr>"
    "status run' = status run"
    using apply_events_shape [OF run(1)] by blast
  then have "run_ended r' (fold (apply_event cfg r) evs s) = run_ended r' s"
    "terminal_durable r' (fold (apply_event cfg r) evs s) = terminal_durable r' s" for r'
    using run(1) by (auto simp: run_ended_def terminal_durable_def)
  then show ?thesis
    using batch assms(1,4) unfolding svc_core_def terminal_ok_def by metis
qed

lemma resequence_fields [simp]:
  "event_id (resequence seqs ev) = event_id ev" "ev_type (resequence seqs ev) = ev_type ev"
  "ev_run_id (resequence seqs ev) = ev_run_id ev" "event_is_terminal (resequence seqs ev) = event_is_terminal ev"
  by (simp_all add: resequence_def event_is_terminal_def split: option.split)

lemma apply_terminal_core:
  assumes "svc_core cfg s" "0 < max_events_per_run cfg" "runs s r = Some run" "\<not> terminal_recorded r s"
    "after_all run (map (resequence seqs) evs)" "batch_ok r evs" "run_is_terminal st"
    "has_persistence cfg \<Longrightarrow> event_id ` set evs \<subseteq> durable_ids s \<and> terminal_durable r s"
  shows "svc_core cfg (apply_terminal cfg r st evs seqs message now s)"
proof -
  let ?evs = "map (resequence seqs) evs"
  have batch: "batch_ok r ?evs" and ids: "event_id ` set ?evs = event_id ` set evs"
    using assms(6) by (auto simp: batch_ok_def terminal_last_def sorted_wrt_map image_image)
  let ?s1 = "fold (apply_event cfg r) ?evs s"
  note parts = apply_batch [OF assms(1-3,5) batch assms(4)]
  obtain run' zs where s1: "?s1 = s\<lparr>runs := (runs s)(r \<mapsto> run'), recorded := recorded s @ zs\<rparr>"
    using apply_events_shape [OF assms(3)] by blast
  let ?s2 = "s\<lparr>runs := (runs s)(r \<mapsto> run'\<lparr>status := st\<rparr>), recorded := recorded s @ zs\<rparr>"
  have s2: "set_status r st ?s1 = ?s2" using s1 by (simp add: set_status_def)
  have ended: "run_ended r ?s2" "r' \<noteq> r \<Longrightarrow> run_ended r' s \<Longrightarrow> run_ended r' ?s2" for r'
    using assms(7) by (auto simp: run_ended_def)
  have "record_ok cfg (?s1\<lparr>runs := (runs ?s1)(r \<mapsto> run'\<lparr>status := st\<rparr>)\<rparr>)"
    by (rule run_update_record_ok [where run = run']) (use parts(1) assms(7,8) ids s1 in auto)
  then have "record_ok cfg ?s2" using s1 record_ok_cong [of ?s2 "?s1\<lparr>runs := (runs ?s1)(r \<mapsto> run'\<lparr>status := st\<rparr>)\<rparr>" cfg] by simp
  moreover have "terminal_ok cfg ?s2"
    unfolding terminal_ok_def
  proof
    fix r'
    have same: "recorded ?s2 = recorded ?s1" "terminal_recorded r' ?s2 = terminal_recorded r' ?s1"
      "terminal_durable r' ?s2 = terminal_durable r' s"
      using s1 by (simp_all add: terminal_recorded_def terminal_durable_def)
    show "terminal_last (of_run r' (recorded ?s2)) \<and>
        (terminal_recorded r' ?s2 \<longrightarrow> run_ended r' ?s2 \<and> (has_persistence cfg \<longrightarrow> terminal_durable r' ?s2))"
      using parts(4) [of r'] parts(5) [of r'] ended(1) ended(2) [of r'] assms(1,8) ids unfolding same
      by (cases "r' = r") (simp_all add: svc_core_def terminal_ok_def)
  qed
  moreover have "pending_ok cfg ?s2" "visible_durable cfg ?s2"
    using parts(2,3) assms(8) ids s1 by (auto simp: pending_ok_def visible_durable_def durable_ids_def)
  ultimately have "svc_core cfg (set_status r st ?s1)" using s2 by (simp add: svc_core_def)
  moreover have "fold (\<lambda>ev. apply_event cfg r (resequence seqs ev)) evs s = ?s1" by (simp add: fold_map comp_def)
  ultimately show ?thesis using sessions_core by (simp add: apply_terminal_def Let_def)
qed

subsection \<open>Reservations\<close>

lemma event_append_ids: "event_id ev \<in> call_ids (event_append_payload sd cfg r ev now)"
  by (rule call_ids_field [of "''event_id''"]) (simp_all add: event_append_payload_def str_field_def jget_jobject)

lemma candidate_after:
  assumes "record_ok cfg s" "runs s r = Some run"
  shows "\<forall>x \<in> set (events run). seq x < next_seq run"
proof
  fix x assume x: "x \<in> set (events run)"
  then obtain es e where es: "events run = es @ [e]" by (metis append_butlast_last_id empty_iff list.set(1))
  have "sorted_wrt (<) (map seq (events run))" using record_ok_some [OF assms] by (simp add: order_ok_def)
  then have "seq x \<le> seq e" using x es by (auto simp: sorted_wrt_append)
  then show "seq x < next_seq run" using es by (cases es) (simp_all add: next_seq_def)
qed

text \<open>A candidate of a live run satisfies the reservation condition, alone or followed by one more.\<close>

lemma live_run:
  assumes "svc_core cfg s" "runs s r = Some run" "\<not> run_is_terminal (status run)"
  shows "rr_run_id run = r" "sender run" "\<not> terminal_recorded r s" "\<forall>x \<in> set (events run). seq x < next_seq run"
  using assms record_ok_some [of cfg s r run] candidate_after [of cfg s r run]
  by (auto simp: svc_core_def order_ok_def terminal_ok_def run_ended_def)

lemma reserve_one:
  assumes "svc_core cfg s" "runs s r = Some run" "\<not> run_is_terminal (status run)" "seq ev = next_seq run" "ev_run_id ev = r"
  shows "reserved_ok r [ev] s"
  using live_run [OF assms(1-3)] assms(2,4,5) by (auto simp: reserved_ok_def after_all_def batch_ok_def terminal_last_def)

lemma reserve_two:
  assumes "svc_core cfg s" "runs s r = Some run" "\<not> run_is_terminal (status run)" "seq a = next_seq run" "seq b = Suc (next_seq run)"
    "ev_run_id a = r" "ev_run_id b = r" "\<not> event_is_terminal a"
  shows "reserved_ok r [a, b] s"
  using live_run [OF assms(1-3)] assms(2,4-8) by (auto simp: reserved_ok_def after_all_def batch_ok_def terminal_last_def)

lemma deliver_begin_ok:
  assumes "svc_core cfg s" "validate_script_event v = Inr t" "deliver_begin sd cfg r t data uuid now now_ms s = Reserve i"
  shows "inflight_ok cfg s i"
proof -
  obtain run where run: "runs s r = Some run" "\<not> run_is_terminal (status run)"
    using assms(3) by (auto simp: deliver_begin_def run_is_terminal_def split: option.splits if_splits)
  let ?ev = "event_candidate sd run t data (max_event_bytes cfg) uuid now"
  have i: "i = InDeliver r \<lparr>rc_event = ?ev, rc_message = None,
      rc_call = \<lparr>call_op = EventAppend, call_payload = event_append_payload sd cfg r ?ev now_ms\<rparr>\<rparr>"
    using assms(3) run by (simp add: deliver_begin_def run_is_terminal_def Let_def)
  show ?thesis
    using reserve_one [OF assms(1) run] live_run [OF assms(1) run] run(1) event_append_ids [of ?ev sd cfg r now_ms]
      canonical_not_terminal [of ?ev] validate_script_event_canonical [OF assms(2)]
    unfolding i by (simp add: no_terminal_def)
qed

lemma reserve_step_event:
  "rc_event (reserve_step sd cfg r run t data res p n uuid clk s) =
     (let ev = event_candidate sd run t data (max_event_bytes cfg) uuid (clk 0); i = tool_event_id r (tool_call_of data) t
      in if i \<noteq> [] then ev\<lparr>event_id := i\<rparr> else ev)"
  by (simp add: reserve_step_def Let_def)

lemma reserve_step_ids:
  "event_id (rc_event rc) \<in> call_ids (call_payload (rc_call rc))"
  if "rc = reserve_step sd cfg r run t data res p n uuid clk s"
proof -
  have "str_field ''event_id'' (call_payload (rc_call rc)) = Some (event_id (rc_event rc))"
    unfolding that by (simp add: reserve_step_def event_append_payload_def Let_def str_field_def jget_jobject)
  then show ?thesis by (rule call_ids_field) simp
qed

lemma commit_step_begin_ok:
  assumes "svc_core cfg s" "t \<notin> terminal_types" "commit_step_begin sd cfg r seen t data res uuid clk s = Reserve i"
  shows "inflight_ok cfg s i"
proof -
  obtain run p n where run: "runs s r = Some run" "\<not> run_is_terminal (status run)"
    and i: "i = InCommit (reserve_step sd cfg r run t data res p n uuid clk s)"
    using assms(3) by (auto simp: commit_step_begin_def split: option.splits if_splits prod.splits)
  let ?rc = "reserve_step sd cfg r run t data res p n uuid clk s"
  have ev: "seq (rc_event ?rc) = next_seq run" "ev_run_id (rc_event ?rc) = r" "ev_type (rc_event ?rc) = t"
    using live_run(1) [OF assms(1) run] by (simp_all add: reserve_step_event Let_def)
  show ?thesis
    using reserve_one [OF assms(1) run ev(1,2)] ev assms(2) reserve_step_ids
    unfolding i by (simp add: no_terminal_def event_is_terminal_def)
qed

lemma pair_event_fields [simp]:
  "seq (pair_event sd cfg r run a uuid now) = next_seq run" "ev_run_id (pair_event sd cfg r run a uuid now) = rr_run_id run"
  "ev_type (pair_event sd cfg r run a uuid now) = fst a"
  by (simp_all add: pair_event_def Let_def)

lemma reserve_pair_ids:
  "{event_id a, event_id b} \<subseteq> call_ids (call_payload (rp_call (reserve_pair sd cfg r a b now)))"
proof -
  let ?p = "call_payload (rp_call (reserve_pair sd cfg r a b now))"
  have "str_field ''event_id_a'' ?p = Some (event_id a)" "str_field ''event_id_b'' ?p = Some (event_id b)"
    by (simp_all add: reserve_pair_def Let_def str_field_def jget_jobject)
  then show ?thesis using call_ids_field by auto
qed

lemma commit_pair_begin_ok:
  assumes "svc_core cfg s" "fst a \<notin> terminal_types" "fst b \<notin> terminal_types"
    "commit_pair_begin sd cfg r seen a b uuid1 uuid2 clk s = Reserve i"
  shows "inflight_ok cfg s i"
proof -
  obtain run where run: "runs s r = Some run" "\<not> run_is_terminal (status run)"
    using assms(4) by (auto simp: commit_pair_begin_def split: option.splits if_splits)
  let ?a = "pair_event sd cfg r run a uuid1 (clk 0)" and ?b = "pair_event sd cfg r run b uuid2 (clk 1)"
  have rid: "rr_run_id run = r" using live_run(1) [OF assms(1) run] .
  have nt: "\<not> event_is_terminal ?a" "\<not> event_is_terminal ?b" using assms(2,3) by (simp_all add: event_is_terminal_def)
  have single: "inflight_ok cfg s (InCommit (reserve_single sd cfg r ev now))" if "ev = ?a \<or> ev = ?b" for ev now
    using that reserve_one [OF assms(1) run, of ev] rid nt event_append_ids by (auto simp: reserve_single_def no_terminal_def)
  have "event_is_terminal (?b\<lparr>seq := n\<rparr>) = event_is_terminal ?b" for n by (simp add: event_is_terminal_def)
  then have both: "inflight_ok cfg s (InPair (reserve_pair sd cfg r ?a ?b now))" for now
    using reserve_two [OF assms(1) run, of ?a "?b\<lparr>seq := Suc (next_seq run)\<rparr>"] rid nt reserve_pair_ids [of ?a ?b sd cfg r now]
    by (simp add: reserve_pair_def no_terminal_def Let_def)
  show ?thesis
    using assms(4) run single both by (auto simp: commit_pair_begin_def Let_def split: if_splits)
qed

lemma commit_completed_begin_ok:
  assumes "svc_core cfg s" "u 1 \<noteq> u 2" "commit_completed_begin sd cfg r sid text u clk s = Reserve i"
  shows "inflight_ok cfg s i"
proof -
  obtain run session where run: "runs s r = Some run" "status run = ''started''" "sessions s sid = Some session"
    using assms(3) by (auto simp: commit_completed_begin_def split: option.splits if_splits)
  then have live: "\<not> run_is_terminal (status run)" by (simp add: run_is_terminal_def)
  have rid: "rr_run_id run = r" using live_run(1) [OF assms(1) run(1) live] .
  show ?thesis
    using assms(2,3) run reserve_one [OF assms(1) run(1) live] reserve_two [OF assms(1) run(1) live] rid
    by (auto simp: commit_completed_begin_def Let_def run_is_terminal_def event_is_terminal_def split: if_splits)
qed

lemma commit_ended_begin_ok:
  assumes "svc_core cfg s" "run_is_terminal st" "commit_ended_begin sd cfg t st r data uuid now s = Reserve i"
  shows "inflight_ok cfg s i"
  using assms reserve_one [OF assms(1)] live_run(1) [OF assms(1)]
  by (auto simp: commit_ended_begin_def split: option.splits if_splits)

lemma retry_begin_core:
  assumes "svc_core cfg s" "retry_begin r instant s = (b, s')"
  shows "svc_core cfg s'" "b = Reserve i \<Longrightarrow> s' = s \<and> inflight_ok cfg s i" "gate s' = gate s"
proof -
  show "gate s' = gate s"
    using assms(2) by (auto simp: retry_begin_def clear_pending_terminal_def close_run_stream_def split: option.splits if_splits)
  show "svc_core cfg s'"
    using assms clear_core [OF assms(1), of r] close_core [OF clear_core [OF assms(1), of r], of r]
    by (auto simp: retry_begin_def run_ended_def run_is_terminal_def clear_pending_terminal_def split: option.splits if_splits)
  show "b = Reserve i \<Longrightarrow> s' = s \<and> inflight_ok cfg s i"
    using assms by (auto simp: retry_begin_def run_ended_def run_is_terminal_def svc_core_def pending_ok_def
        split: option.splits if_splits)
qed

subsection \<open>After the persistence call\<close>

lemma reserved_ok_log [simp]: "reserved_ok r evs (log_call cfg c a s) = reserved_ok r evs s"
  by (simp add: reserved_ok_def terminal_recorded_def)

lemma logged_ids:
  "persist_result cfg a = Inr x \<Longrightarrow> has_persistence cfg \<Longrightarrow> call_ids (call_payload c) \<subseteq> durable_ids (log_call cfg c a s)"
  by (cases a) (auto simp: persist_result_def log_call_def durable_ids_def)

lemma apply_event_durable [simp]: "durable (apply_event cfg r ev s) = durable s"
  by (simp add: apply_event_def split: option.split)

lemma durable_ids_cong: "durable s' = durable s \<Longrightarrow> durable_ids s' = durable_ids s"
  by (simp add: durable_ids_def)

lemma deliver_finish_core:
  assumes "svc_core cfg s" "0 < max_events_per_run cfg" "inflight_ok cfg s (InDeliver r rc)"
  shows "svc_core cfg (snd (deliver_finish cfg r rc answer s))" "fst (deliver_finish cfg r rc answer s) \<noteq> SenderMissing"
proof -
  let ?s1 = "log_call cfg (rc_call rc) answer s" and ?ev = "rc_event rc"
  let ?s2 = "apply_event cfg r ?ev ?s1"
  obtain run where run: "runs s r = Some run" "sender run" using assms(3) by auto
  show "fst (deliver_finish cfg r rc answer s) \<noteq> SenderMissing"
    using run by (auto simp: deliver_finish_def Let_def split: sum.split)
  show "svc_core cfg (snd (deliver_finish cfg r rc answer s))"
  proof (cases "persist_result cfg answer")
    case (Inl e)
    then show ?thesis using log_core assms(1) release_core by (simp add: deliver_finish_def Let_def)
  next
    case (Inr x)
    have ids: "has_persistence cfg \<Longrightarrow> event_id ?ev \<in> durable_ids ?s1"
      using logged_ids [OF Inr] assms(3) by auto
    have "svc_core cfg ?s2"
      using apply_batch_core [OF log_core [OF assms(1)] assms(2), of r "[?ev]"] assms(3) ids by simp
    then have "svc_core cfg (?s2\<lparr>sending := sending ?s2 @ [?ev]\<rparr>)"
      by (rule core_cong [where evs = "[?ev]"]) (use ids in \<open>auto simp: durable_ids_def\<close>)
    then show ?thesis using Inr run release_core by (simp add: deliver_finish_def Let_def)
  qed
qed

lemma persist_and_apply_core:
  assumes "svc_core cfg s" "0 < max_events_per_run cfg" "inflight_ok cfg s (InCommit rc)"
  shows "svc_core cfg (snd (persist_and_apply cfg rc answer now s))"
proof (cases "persist_result cfg answer")
  case (Inl e)
  then show ?thesis using log_core assms(1) release_core by (simp add: persist_and_apply_def Let_def)
next
  case (Inr x)
  let ?s1 = "log_call cfg (rc_call rc) answer s" and ?ev = "rc_event rc"
  have ids: "has_persistence cfg \<Longrightarrow> event_id ?ev \<in> durable_ids ?s1"
    using logged_ids [OF Inr] assms(3) by auto
  have "svc_core cfg (apply_event cfg (ev_run_id ?ev) ?ev ?s1)"
    using apply_batch_core [OF log_core [OF assms(1)] assms(2), of "ev_run_id ?ev" "[?ev]"] assms(3) ids by simp
  then have "svc_core cfg (apply_reserved cfg rc now ?s1)"
    unfolding apply_reserved_def Let_def by (rule sessions_core)
  then have "svc_core cfg (send_live (ev_run_id ?ev) [?ev] (apply_reserved cfg rc now ?s1))"
    by (rule send_live_core) (use ids in \<open>auto simp: apply_reserved_def durable_ids_def Let_def\<close>)
  then show ?thesis using Inr release_core by (simp add: persist_and_apply_def Let_def)
qed

lemma persist_and_apply_pair_core:
  assumes "svc_core cfg s" "0 < max_events_per_run cfg" "inflight_ok cfg s (InPair rp)"
  shows "svc_core cfg (snd (persist_and_apply_pair cfg rp answer s))"
proof (cases "persist_result cfg answer")
  case (Inl e)
  then show ?thesis using log_core assms(1) release_core by (simp add: persist_and_apply_pair_def Let_def)
next
  case (Inr x)
  let ?s1 = "log_call cfg (rp_call rp) answer s" and ?evs = "[rp_first rp, rp_second rp]"
  have ids: "has_persistence cfg \<Longrightarrow> event_id ` set ?evs \<subseteq> durable_ids ?s1"
    using logged_ids [OF Inr] assms(3) by auto
  have "svc_core cfg (apply_reserved_pair cfg rp ?s1)"
    using apply_batch_core [OF log_core [OF assms(1)] assms(2), of "ev_run_id (rp_first rp)" ?evs] assms(3) ids
    by (simp add: apply_reserved_pair_def)
  then have "svc_core cfg (send_live (ev_run_id (rp_first rp)) ?evs (apply_reserved_pair cfg rp ?s1))"
    by (rule send_live_core) (use ids in \<open>auto simp: apply_reserved_pair_def durable_ids_def\<close>)
  then show ?thesis using Inr release_core by (simp add: persist_and_apply_pair_def Let_def)
qed

subsection \<open>After \<open>run.terminal\<close>\<close>

lemma terminal_payload_ids:
  assumes "length evs \<le> 2" "e \<in> set evs"
  shows "event_id e \<in> call_ids (terminal_payload sd r sid st evs message now)"
proof -
  let ?p = "terminal_payload sd r sid st evs message now"
  have "str_field ''event_1_id'' ?p = Some (if 0 < length evs then event_id (evs ! 0) else [])"
    "str_field ''event_2_id'' ?p = Some (if 1 < length evs then event_id (evs ! 1) else [])"
    by (simp_all add: terminal_payload_def str_field_def jget_jobject event_field_def)
  then have "0 < length evs \<Longrightarrow> event_id (evs ! 0) \<in> call_ids ?p" "1 < length evs \<Longrightarrow> event_id (evs ! 1) \<in> call_ids ?p"
    using call_ids_field by auto
  moreover obtain k where "k < length evs" "e = evs ! k" using assms(2) by (auto simp: in_set_conv_nth)
  moreover have "k = 0 \<or> k = 1" using calculation assms(1) by linarith
  ultimately show ?thesis by auto
qed

lemma terminal_payload_run: "jget ''run_id'' (terminal_payload sd r sid st evs message now) = Some (JString r)"
  by (simp add: terminal_payload_def jget_jobject)

lemma apply_event_keeps [simp]:
  "sending (apply_event cfg r ev s) = sending s" "published (apply_event cfg r ev s) = published s"
  "gate (apply_event cfg r ev s) = gate s"
  by (simp_all add: apply_event_def split: option.split)

lemma apply_terminal_durable [simp]: "durable (apply_terminal cfg r st evs seqs message now s) = durable s"
proof -
  have "durable (fold (\<lambda>ev. apply_event cfg r (resequence seqs ev)) evs s) = durable s"
    by (induction evs arbitrary: s) simp_all
  then show ?thesis by (simp add: apply_terminal_def Let_def set_status_def split: option.split)
qed

lemma terminal_logged:
  assumes "terminal_seqs cfg evs answer = Inr seqs" "has_persistence cfg" "length evs \<le> 2"
  shows "event_id ` set evs \<subseteq> durable_ids (log_call cfg (terminal_call sd r sid st evs message now) answer s)"
    "terminal_durable r (log_call cfg (terminal_call sd r sid st evs message now) answer s)"
proof -
  have "\<not> isl answer" using assms(1,2) by (cases answer) (auto simp: terminal_seqs_def)
  then show "event_id ` set evs \<subseteq> durable_ids (log_call cfg (terminal_call sd r sid st evs message now) answer s)"
    "terminal_durable r (log_call cfg (terminal_call sd r sid st evs message now) answer s)"
    using assms(2) terminal_payload_ids [OF assms(3)] terminal_payload_run
    by (auto simp: log_call_def durable_ids_def terminal_durable_def terminal_call_def)
qed

lemma terminal_apply_core:
  assumes "svc_core cfg s" "0 < max_events_per_run cfg" "runs s r = Some run" "\<not> terminal_recorded r s"
    "after_all run (map (resequence seqs) evs)" "batch_ok r evs" "run_is_terminal st" "terminal_seqs cfg evs answer = Inr seqs"
  shows "svc_core cfg (apply_terminal cfg r st evs seqs message now
    (log_call cfg (terminal_call sd r sid st evs message now') answer s))"
proof (rule apply_terminal_core [OF log_core [OF assms(1)] assms(2) _ _ assms(5-7)])
  let ?s1 = "log_call cfg (terminal_call sd r sid st evs message now') answer s"
  show "runs ?s1 r = Some run" "\<not> terminal_recorded r ?s1" using assms(3,4) by (simp_all add: terminal_recorded_def)
  show "has_persistence cfg \<Longrightarrow> event_id ` set evs \<subseteq> durable_ids ?s1 \<and> terminal_durable r ?s1"
    using terminal_logged [OF assms(8)] assms(6) by (simp add: batch_ok_def)
qed

lemma resequence_self:
  assumes "distinct (map event_id evs)"
  shows "map (resequence (map (\<lambda>e. (event_id e, seq e)) evs)) evs = evs"
proof (rule map_idI)
  fix e assume "e \<in> set evs"
  then have "(event_id e, seq e) \<in> set (map (\<lambda>e. (event_id e, seq e)) evs)" by auto
  then have "map_of (map (\<lambda>e. (event_id e, seq e)) evs) (event_id e) = Some (seq e)"
    using assms by (intro map_of_is_SomeI) (simp_all add: comp_def)
  then show "resequence (map (\<lambda>e. (event_id e, seq e)) evs) e = e" by (simp add: resequence_def)
qed

lemma parked_core:
  assumes "svc_core cfg s" "has_persistence cfg" "batch_ok r (pt_events p)" "run_is_terminal (pt_to_status p)"
  shows "svc_core cfg (s\<lparr>parked := parked s @ [(r, p)]\<rparr>)"
  using assms record_ok_cong [of "s\<lparr>parked := parked s @ [(r, p)]\<rparr>" s cfg]
  by (auto simp: svc_core_def terminal_ok_def pending_ok_def visible_durable_def terminal_recorded_def run_ended_def
      terminal_durable_def durable_ids_def)

lemma terminal_finish_core:
  assumes "svc_core cfg s" "0 < max_events_per_run cfg" "inflight_ok cfg s (InTerminal tq)"
    "terminal_contract cfg (tq_run_id tq) (tq_events tq) answer s"
  shows "svc_core cfg (snd (terminal_finish sd cfg tq answer now instant s))"
proof (cases "terminal_seqs cfg (tq_events tq) answer")
  case (Inl e)
  then have persistent: "has_persistence cfg" by (auto simp: terminal_seqs_def split: if_splits)
  let ?s1 = "log_call cfg (terminal_call sd (tq_run_id tq) (tq_session_id tq) (tq_to_status tq) (tq_events tq)
      (tq_message tq) now) answer s"
  let ?p = "\<lparr>pt_to_status = tq_to_status tq, pt_session_id = tq_session_id tq, pt_events = tq_events tq,
      pt_message = tq_message tq, pt_deadline = instant + terminal_commit_retry_window cfg\<rparr>"
  have "svc_core cfg (?s1\<lparr>parked := parked ?s1 @ [(tq_run_id tq, ?p)]\<rparr>)"
    by (rule parked_core) (use persistent assms(3) log_core [OF assms(1)] in \<open>auto simp: reserved_ok_def\<close>)
  then show ?thesis using Inl release_core by (simp add: terminal_finish_def Let_def)
next
  case (Inr seqs)
  let ?r = "tq_run_id tq" and ?evs = "tq_events tq"
  obtain run where run: "runs s ?r = Some run" "after_all run ?evs" "batch_ok ?r ?evs" "\<not> terminal_recorded ?r s"
    using assms(3) by (auto simp: reserved_ok_def)
  have "after_all run (map (resequence seqs) ?evs)"
    using assms(3,4) Inr run resequence_self [of ?evs]
    by (cases "has_persistence cfg") (auto simp: terminal_contract_def terminal_seqs_def)
  then have applied: "svc_core cfg (apply_terminal cfg ?r (tq_to_status tq) ?evs seqs (tq_message tq) now
      (log_call cfg (terminal_call sd ?r (tq_session_id tq) (tq_to_status tq) ?evs (tq_message tq) now) answer s))"
    using terminal_apply_core [OF assms(1,2) run(1,4) _ run(3) _ Inr] assms(3) by simp
  have "length ?evs \<le> 2" using run(3) by (simp add: batch_ok_def)
  then have "svc_core cfg (send_live ?r ?evs (apply_terminal cfg ?r (tq_to_status tq) ?evs seqs (tq_message tq) now
      (log_call cfg (terminal_call sd ?r (tq_session_id tq) (tq_to_status tq) ?evs (tq_message tq) now) answer s)))"
    using terminal_logged(1) [OF Inr] durable_ids_cong [OF apply_terminal_durable]
    by (intro send_live_core applied) simp
  then show ?thesis using Inr release_core by (simp add: terminal_finish_def Let_def)
qed

lemma retry_finish_core:
  assumes "svc_core cfg s" "0 < max_events_per_run cfg" "inflight_ok cfg s (InRetry r p)"
    "terminal_contract cfg r (pt_events p) answer s"
  shows "svc_core cfg (snd (retry_finish sd cfg r p answer now s))"
proof (cases "terminal_seqs cfg (pt_events p) answer")
  case (Inl e)
  let ?s1 = "log_call cfg (terminal_call sd r (pt_session_id p) (pt_to_status p) (pt_events p) (pt_message p) now) answer s"
  have "run_ended r (clear_pending_terminal r ?s1)"
    using assms(3) by (simp add: run_ended_def clear_pending_terminal_def)
  then show ?thesis
    using Inl release_core close_core [OF clear_core [OF log_core [OF assms(1)]]] release_core [OF log_core [OF assms(1)]]
    by (simp add: retry_finish_def Let_def)
next
  case (Inr seqs)
  let ?evs = "pt_events p"
  obtain run where run: "runs s r = Some run" using assms(3) by (auto simp: run_ended_def)
  have p: "has_persistence cfg" "batch_ok r ?evs" "run_is_terminal (pt_to_status p)" using assms(3) by simp_all
  have contract: "\<not> terminal_durable r s" "after_all run (map (resequence seqs) ?evs)"
    using assms(4) Inr run p by (simp_all add: terminal_contract_def)
  then have "\<not> terminal_recorded r s" using assms(1) p by (auto simp: svc_core_def terminal_ok_def)
  then have applied: "svc_core cfg (apply_terminal cfg r (pt_to_status p) ?evs seqs (pt_message p) now
      (log_call cfg (terminal_call sd r (pt_session_id p) (pt_to_status p) ?evs (pt_message p) now) answer s))"
    using terminal_apply_core [OF assms(1,2) run _ contract(2) p(2,3) Inr] by simp
  have "length ?evs \<le> 2" using p(2) by (simp add: batch_ok_def)
  moreover have "durable_ids (clear_pending_terminal r x) = durable_ids x" for x :: service
    by (rule durable_ids_cong) (simp add: clear_pending_terminal_def)
  ultimately have "svc_core cfg (send_live r (map (resequence seqs) ?evs) (clear_pending_terminal r
      (apply_terminal cfg r (pt_to_status p) ?evs seqs (pt_message p) now
        (log_call cfg (terminal_call sd r (pt_session_id p) (pt_to_status p) ?evs (pt_message p) now) answer s))))"
    using terminal_logged(1) [OF Inr p(1)] durable_ids_cong [OF apply_terminal_durable]
    by (intro send_live_core clear_core applied) (simp add: image_image)
  then show ?thesis using Inr release_core by (simp add: retry_finish_def Let_def)
qed

subsection \<open>Every step keeps the invariant\<close>

text \<open>Steps that do not take the gate leave a reservation in flight valid.\<close>

lemma inflight_mono:
  assumes "inflight_ok cfg s i" "recorded s' = recorded s"
    "\<And>r run. runs s r = Some run \<Longrightarrow> \<exists>run'. runs s' r = Some run' \<and> events run' = events run \<and> sender run' = sender run \<and>
       (run_is_terminal (status run) \<longrightarrow> run_is_terminal (status run'))"
  shows "inflight_ok cfg s' i"
proof -
  have "reserved_ok r evs s'" if "reserved_ok r evs s" for r evs
    using that assms(2,3) unfolding reserved_ok_def after_all_def terminal_recorded_def by metis
  moreover have "run_ended r s'" if "run_ended r s" for r
    using that assms(3) unfolding run_ended_def by metis
  ultimately show ?thesis using assms(1,3) by (cases i) (simp, metis, simp_all)
qed

lemma gate_mono:
  assumes "gate_ok cfg s" "gate s' = gate s" "recorded s' = recorded s"
    "\<And>r run. runs s r = Some run \<Longrightarrow> \<exists>run'. runs s' r = Some run' \<and> events run' = events run \<and> sender run' = sender run \<and>
       (run_is_terminal (status run) \<longrightarrow> run_is_terminal (status run'))"
  shows "gate_ok cfg s'"
  using assms inflight_mono [OF _ assms(3,4)] by (auto simp: gate_ok_def split: option.splits)

lemma admit_inv:
  assumes "svc_inv cfg s" "fresh_run cfg r run s"
  shows "svc_inv cfg (s\<lparr>runs := (runs s)(r \<mapsto> run), handles := h\<rparr>)" (is "svc_inv cfg ?s'")
proof -
  have core: "svc_core cfg s" and gate: "gate_ok cfg s" using assms(1) by (simp_all add: svc_inv_split)
  have rec: "record_ok cfg s" using core by (simp add: svc_core_def)
  have none: "of_run r (recorded s) = []" using record_ok_none [OF rec] assms(2) by (simp add: fresh_run_def)
  have "record_ok cfg ?s'"
  proof (rule record_okI)
    fix r' assume "runs ?s' r' = None"
    then show "of_run r' (recorded ?s') = []" using record_ok_none [OF rec] by (auto split: if_splits)
  next
    fix r' run' assume "runs ?s' r' = Some run'"
    then show "order_ok cfg r' run' (recorded ?s') \<and> (\<not> sender run' \<longrightarrow> run_is_terminal (status run'))"
      using record_ok_some [OF rec, of r' run'] assms(2) none by (auto simp: order_ok_def fresh_run_def split: if_splits)
  qed
  moreover have "terminal_ok cfg ?s'"
  proof -
    have "run_ended r' s \<longrightarrow> run_ended r' ?s'" for r' using assms(2) by (auto simp: run_ended_def fresh_run_def)
    then show ?thesis using core by (simp add: svc_core_def terminal_ok_def terminal_recorded_def terminal_durable_def)
  qed
  ultimately have "svc_core cfg ?s'"
    using core by (simp add: svc_core_def pending_ok_def visible_durable_def durable_ids_def)
  moreover have "gate_ok cfg ?s'"
    by (rule gate_mono [OF gate]) (use assms(2) in \<open>auto simp: fresh_run_def\<close>)
  ultimately show ?thesis by (simp add: svc_inv_split)
qed

lemma register_inv:
  assumes "svc_inv cfg s" "(r, p) \<in> set (parked s)"
  shows "svc_inv cfg (register_pending_terminal r p s)"
proof -
  have core: "svc_core cfg s" and gate: "gate_ok cfg s" using assms(1) by (simp_all add: svc_inv_split)
  let ?s1 = "set_status r ''terminal_pending'' s"
  have core1: "svc_core cfg ?s1" using set_status_core [OF core] by (simp add: run_is_terminal_def)
  have parked: "parked ?s1 = parked s" by (simp add: set_status_def split: option.split)
  have "record_ok cfg (register_pending_terminal r p s)" "terminal_ok cfg (register_pending_terminal r p s)"
    "visible_durable cfg (register_pending_terminal r p s)"
    using core1 record_ok_cong [of "register_pending_terminal r p s" ?s1 cfg]
    by (simp_all add: svc_core_def register_pending_terminal_def Let_def terminal_ok_def visible_durable_def
        terminal_recorded_def run_ended_def terminal_durable_def durable_ids_def)
  moreover have "pending_ok cfg (register_pending_terminal r p s)"
    using core1 assms(2) parked by (auto simp: svc_core_def register_pending_terminal_def Let_def pending_ok_def)
  moreover have "gate_ok cfg (register_pending_terminal r p s)"
    by (rule gate_mono [OF gate])
       (auto simp: register_pending_terminal_def Let_def set_status_def run_is_terminal_def split: option.split)
  ultimately show ?thesis by (simp add: svc_inv_split svc_core_def)
qed

lemma stop_inv:
  assumes "svc_inv cfg s"
  shows "svc_inv cfg (snd (Run_Terminal.stop r s))"
proof -
  have core: "svc_core cfg s" and gate: "gate_ok cfg s" using assms by (simp_all add: svc_inv_split)
  show ?thesis
  proof (cases "snd (Run_Terminal.stop r s) = s")
    case False
    then obtain run h where run: "runs s r = Some run" "status run = ''started''"
      and s': "snd (Run_Terminal.stop r s) = s\<lparr>runs := (runs s)(r \<mapsto> run\<lparr>status := ''stopping''\<rparr>), handles := h\<rparr>"
      by (auto simp: stop_def Let_def set_status_def split: option.splits if_splits)
    have "svc_core cfg (s\<lparr>runs := (runs s)(r \<mapsto> run\<lparr>status := ''stopping''\<rparr>)\<rparr>)"
      using run_update_core [OF core run(1), of "run\<lparr>status := ''stopping''\<rparr>"] record_ok_some [of cfg s r run] core run
      by (simp add: svc_core_def run_is_terminal_def)
    then have "svc_core cfg (snd (Run_Terminal.stop r s))"
      unfolding s' by (rule core_cong [where evs = "[]"]) auto
    moreover have "gate_ok cfg (snd (Run_Terminal.stop r s))"
      unfolding s' by (rule gate_mono [OF gate]) (use run in \<open>auto simp: run_is_terminal_def\<close>)
    ultimately show ?thesis by (simp add: svc_inv_split)
  qed (simp add: assms)
qed

lemma frame_inv:
  assumes "svc_inv cfg s" "runs s' = runs s" "recorded s' = recorded s" "pending s' = pending s" "parked s' = parked s"
    "durable s' = durable s" "gate s' = gate s" "set (published s') \<union> set (sending s') \<subseteq> set (published s) \<union> set (sending s)"
  shows "svc_inv cfg s'"
proof -
  have "svc_core cfg s'"
    by (rule core_cong [where s = s and evs = "[]"]) (use assms in \<open>auto simp: svc_inv_split\<close>)
  moreover have "gate_ok cfg s'"
    by (rule gate_mono [where s = s]) (use assms in \<open>auto simp: svc_inv_split\<close>)
  ultimately show ?thesis by (simp add: svc_inv_split)
qed

lemma reserve_inv: "svc_core cfg s \<Longrightarrow> inflight_ok cfg s i \<Longrightarrow> svc_inv cfg (s\<lparr>gate := Some i\<rparr>)"
  using core_cong [of cfg s "s\<lparr>gate := Some i\<rparr>" "[]"] inflight_mono [of cfg s i "s\<lparr>gate := Some i\<rparr>"]
  by (simp add: svc_inv_split gate_ok_def)

lemma finish_gates [simp]:
  "gate (snd (deliver_finish cfg r rc answer s)) = None" "gate (snd (persist_and_apply cfg rc answer now s)) = None"
  "gate (snd (persist_and_apply_pair cfg rp answer s)) = None" "gate (snd (terminal_finish sd cfg tq answer now instant s)) = None"
  "gate (snd (retry_finish sd cfg r p answer now s)) = None"
  by (simp_all add: deliver_finish_def persist_and_apply_def persist_and_apply_pair_def terminal_finish_def retry_finish_def
      Let_def split: sum.split option.split)

text \<open>
  The contract the five ends of a gated operation share: from a state in which the operation
  holds the gate with a valid reservation it keeps the rest of the invariant, under the
  condition it relies on, and it releases the gate.
\<close>

locale gated_finish =
  fixes cfg :: gateway_config and i :: inflight and finish :: "service \<Rightarrow> 'o \<times> service" and relies :: "service \<Rightarrow> bool"
  assumes finish_core: "svc_core cfg s \<Longrightarrow> inflight_ok cfg s i \<Longrightarrow> relies s \<Longrightarrow> svc_core cfg (snd (finish s))"
    and finish_gate: "gate (snd (finish s)) = None"
begin

lemma finish_inv: "svc_inv cfg s \<Longrightarrow> gate s = Some i \<Longrightarrow> relies s \<Longrightarrow> svc_inv cfg (snd (finish s))"
  using finish_core finish_gate by (simp add: svc_inv_split gate_ok_def)

end

interpretation delivery: gated_finish cfg "InDeliver r rc" "deliver_finish cfg r rc answer" "\<lambda>_. 0 < max_events_per_run cfg"
  for cfg r rc answer
  by unfold_locales (simp_all add: deliver_finish_core del: inflight_ok.simps)

interpretation step_commit: gated_finish cfg "InCommit rc" "persist_and_apply cfg rc answer now" "\<lambda>_. 0 < max_events_per_run cfg"
  for cfg rc answer now
  by unfold_locales (simp_all add: persist_and_apply_core del: inflight_ok.simps)

interpretation pair_commit: gated_finish cfg "InPair rp" "persist_and_apply_pair cfg rp answer" "\<lambda>_. 0 < max_events_per_run cfg"
  for cfg rp answer
  by unfold_locales (simp_all add: persist_and_apply_pair_core del: inflight_ok.simps)

interpretation terminal_attempt: gated_finish cfg "InTerminal tq" "terminal_finish sd cfg tq answer now instant"
    "\<lambda>s. 0 < max_events_per_run cfg \<and> terminal_contract cfg (tq_run_id tq) (tq_events tq) answer s"
  for cfg tq sd answer now instant
  by unfold_locales (simp_all add: terminal_finish_core del: inflight_ok.simps)

interpretation terminal_retry: gated_finish cfg "InRetry r p" "retry_finish sd cfg r p answer now"
    "\<lambda>s. 0 < max_events_per_run cfg \<and> terminal_contract cfg r (pt_events p) answer s"
  for cfg r p sd answer now
  by unfold_locales (simp_all add: retry_finish_core del: inflight_ok.simps)

lemma svc_step_inv:
  assumes "svc_step sd cfg s s'" "0 < max_events_per_run cfg" "svc_inv cfg s"
  shows "svc_inv cfg s'"
proof -
  have core: "svc_core cfg s" using assms(3) by (simp add: svc_inv_split)
  have finished: "svc_core cfg s'' \<Longrightarrow> gate s'' = None \<Longrightarrow> svc_inv cfg s''" for s''
    by (simp add: svc_inv_split gate_ok_def)
  show ?thesis
    using assms(1)
  proof cases
    case (session_write ss)
    then show ?thesis using frame_inv [OF assms(3)] by simp
  next
    case (deliver_send ev)
    then show ?thesis
      using frame_inv [OF assms(3), of s'] set_remove1_subset [of ev "sending s"] by (auto simp: Run_Commit.deliver_send_def)
  next
    case (mark_terminal r)
    then show ?thesis
      using frame_inv [OF assms(3), of s'] by (simp add: Run_Terminal.mark_terminal_def split: option.split)
  next
    case (retry_done r instant out)
    then show ?thesis using retry_begin_core [OF core retry_done(2)] finished by simp
  next
    case (retry r instant i s'')
    then show ?thesis using retry_begin_core [OF core retry(3)] reserve_inv by simp
  next
    case (admit r run h)
    then show ?thesis using admit_inv [OF assms(3)] by simp
  next
    case (register r p)
    then show ?thesis using register_inv [OF assms(3)] by simp
  next
    case (stop r)
    then show ?thesis using stop_inv [OF assms(3)] by simp
  next
    case (deliver v t r uuid now now_ms i)
    then show ?thesis using reserve_inv [OF core deliver_begin_ok [OF core]] by simp
  next
    case (commit_step t r seen data res uuid clk i)
    then show ?thesis using reserve_inv [OF core commit_step_begin_ok [OF core]] by simp
  next
    case (commit_pair a b r seen uuid1 uuid2 clk i)
    then show ?thesis using reserve_inv [OF core commit_pair_begin_ok [OF core]] by simp
  next
    case (completed u r sid output_text clk i)
    then show ?thesis using reserve_inv [OF core commit_completed_begin_ok [OF core]] by simp
  next
    case (cancelled r reason uuid now i)
    then show ?thesis
      using reserve_inv [OF core commit_ended_begin_ok [OF core _ cancelled(3) [unfolded commit_cancelled_begin_def]]]
      by (simp add: run_is_terminal_def)
  next
    case (failed r data uuid now i)
    then show ?thesis
      using reserve_inv [OF core commit_ended_begin_ok [OF core _ failed(3) [unfolded commit_failed_begin_def]]]
      by (simp add: run_is_terminal_def)
  next
    case (deliver_end r rc answer)
    then show ?thesis using delivery.finish_inv [OF assms(3)] assms(2) by simp
  next
    case (commit_end rc answer now)
    then show ?thesis using step_commit.finish_inv [OF assms(3)] assms(2) by simp
  next
    case (pair_end rp answer)
    then show ?thesis using pair_commit.finish_inv [OF assms(3)] assms(2) by simp
  next
    case (terminal_end tq answer now instant)
    then show ?thesis using terminal_attempt.finish_inv [OF assms(3)] assms(2) by simp
  next
    case (retry_end r p answer now)
    then show ?thesis using terminal_retry.finish_inv [OF assms(3)] assms(2) by simp
  qed
qed

lemma empty_inv: "svc_inv cfg empty_service"
  by (auto simp: svc_inv_def empty_service_def record_ok_def terminal_ok_def pending_ok_def visible_durable_def
      terminal_recorded_def terminal_last_def of_run_def)

lemma reachable_inv: "reachable sd cfg s \<Longrightarrow> 0 < max_events_per_run cfg \<Longrightarrow> svc_inv cfg s"
  by (induction rule: reachable.induct) (auto intro: empty_inv svc_step_inv)

end
