(* ===== verification/Run_Properties.thy ===== *)
theory Run_Properties
  imports Run_Safety
begin

section \<open>Properties of run events and terminals\<close>

text \<open>
  The safety properties of every interleaving, the progress of the terminal loops, the
  exact result of the delivery loop, and what the modelling showed: a delivered event can be
  published after the terminal event, long tool call ids merge the steps of a call, and event
  data replaces envelope fields.
\<close>

subsection \<open>A concrete execution\<close>

text \<open>
  One run \<open>r\<close>: a script event is recorded but not yet sent, the run fails and publishes its
  terminal event, and the delivery task sends the script event after it.
\<close>

definition plain_serde :: serde where
  "plain_serde = \<lparr>display = (\<lambda>_. []), lossy = id, from_value = (\<lambda>_. None), to_value = (\<lambda>_. JNull)\<rparr>"

definition example_config :: gateway_config where
  "example_config = \<lparr>max_event_bytes = 1000, max_events_per_run = 100, terminal_persist_retries = 2,
     terminal_commit_retry_window = 60, has_persistence = True\<rparr>"

definition example_run :: run_record where
  "example_run = \<lparr>rr_run_id = ''r'', rr_session_id = ''s'', rr_parent_run_id = None, status = ''started'', events = [],
     sender = True\<rparr>"

definition example_handle :: run_handle where
  "example_handle = \<lparr>terminal_at = False, cancel_requested = False, cancel_reason = None\<rparr>"

definition example_value :: vm_value where
  "example_value = VMap [(VString ''type'', VString ''model.delta'')]"

definition example_delta :: gateway_event where
  "example_delta = \<lparr>event_id = ''a'', seq = 1, ev_type = ''model.delta'', ev_run_id = ''r'', ev_timestamp = 0,
     ev_data = script_event_data plain_serde example_value\<rparr>"

definition example_failed :: gateway_event where
  "example_failed = \<lparr>event_id = ''b'', seq = 2, ev_type = ''run.failed'', ev_run_id = ''r'', ev_timestamp = 0,
     ev_data = failed_payload ''x''\<rparr>"

definition ex_admitted :: service where
  "ex_admitted = empty_service\<lparr>runs := [''r'' \<mapsto> example_run], handles := [''r'' \<mapsto> example_handle]\<rparr>"

definition delta_reserved :: reserved_commit where
  "delta_reserved = \<lparr>rc_event = example_delta, rc_message = None, rc_call = \<lparr>call_op = EventAppend,
     call_payload = event_append_payload plain_serde example_config ''r'' example_delta 0\<rparr>\<rparr>"

definition ex_delivering :: service where
  "ex_delivering = ex_admitted\<lparr>gate := Some (InDeliver ''r'' delta_reserved)\<rparr>"

definition ex_recorded :: service where
  "ex_recorded = ex_admitted\<lparr>runs := [''r'' \<mapsto> example_run\<lparr>events := [example_delta]\<rparr>], sending := [example_delta],
     recorded := [example_delta], durable := [rc_call delta_reserved]\<rparr>"

definition failed_request :: terminal_request where
  "failed_request = \<lparr>tq_run_id = ''r'', tq_to_status = ''failed'', tq_session_id = None, tq_events = [example_failed],
     tq_message = None\<rparr>"

definition terminal_rows :: json where
  "terminal_rows = jobject [(''events'', JArray [JArray [JNumber (PosInt 1)], JArray [JNumber (PosInt 2)]])]"

definition ex_failing :: service where
  "ex_failing = ex_recorded\<lparr>gate := Some (InTerminal failed_request)\<rparr>"

definition ex_failed :: service where
  "ex_failed = snd (terminal_finish plain_serde example_config failed_request (Inr terminal_rows) 0 0 ex_failing)"

lemmas example_defs = plain_serde_def example_config_def example_run_def example_handle_def example_delta_def example_failed_def
  ex_admitted_def delta_reserved_def ex_delivering_def ex_recorded_def failed_request_def ex_failing_def empty_service_def

lemma reach_admitted: "reachable plain_serde example_config ex_admitted"
proof -
  have "svc_step plain_serde example_config empty_service
      (empty_service\<lparr>runs := (runs empty_service)(''r'' \<mapsto> example_run), handles := (handles empty_service)(''r'' \<mapsto> example_handle)\<rparr>)"
    by (rule svc_step.admit) (simp add: fresh_run_def example_defs)
  then have "svc_step plain_serde example_config empty_service ex_admitted"
    by (simp add: ex_admitted_def empty_service_def)
  then show ?thesis by (rule reachable.step [OF reachable.start])
qed

lemma reach_delivering: "reachable plain_serde example_config ex_delivering"
proof -
  have "validate_script_event example_value = Inr ''model.delta''"
    by (simp add: validate_script_event_def example_value_def CANONICAL_SCRIPT_EVENTS_def)
  moreover have "deliver_begin plain_serde example_config ''r'' ''model.delta'' (script_event_data plain_serde example_value)
      ''a'' 0 0 ex_admitted = Reserve (InDeliver ''r'' delta_reserved)"
    by (simp add: deliver_begin_def event_candidate_def next_seq_def example_defs Let_def)
  moreover have "gate ex_admitted = None" by (simp add: example_defs)
  ultimately show ?thesis
    unfolding ex_delivering_def by (intro reachable.step [OF reach_admitted] svc_step.deliver)
qed

lemma reach_recorded: "reachable plain_serde example_config ex_recorded"
proof -
  have "svc_step plain_serde example_config ex_delivering
      (snd (deliver_finish example_config ''r'' delta_reserved (Inr JNull) ex_delivering))"
    by (rule svc_step.deliver_end) (simp add: ex_delivering_def)
  moreover have "snd (deliver_finish example_config ''r'' delta_reserved (Inr JNull) ex_delivering) = ex_recorded"
    by (simp add: deliver_finish_def log_call_def persist_result_def apply_event_def apply_event_locked_def release_def
        example_defs Let_def)
  ultimately show ?thesis using reachable.step [OF reach_delivering] by simp
qed

lemma reach_failing: "reachable plain_serde example_config ex_failing"
proof -
  have "commit_failed_begin plain_serde example_config ''r'' (failed_payload ''x'') ''b'' 0 ex_recorded =
      Reserve (InTerminal failed_request)"
    by (simp add: commit_failed_begin_def commit_ended_begin_def run_is_terminal_def event_candidate_def next_seq_def
        example_defs Let_def)
  moreover have "gate ex_recorded = None" by (simp add: example_defs)
  ultimately show ?thesis
    unfolding ex_failing_def by (intro reachable.step [OF reach_recorded] svc_step.failed)
qed

lemma example_seqs: "terminal_seqs example_config [example_failed] (Inr terminal_rows) = Inr [(''b'', 2)]"
  by (simp add: terminal_seqs_def example_config_def terminal_rows_def or_null_def jobject_def sqlite_storage_rows_def jget_def
      sqlite_storage_row_list_def sqlite_storage_row_def sqlite_storage_cell_def event_row_seq_def example_failed_def)

lemma ex_failed_fields:
  "published ex_failed = [example_failed]" "sending ex_failed = [example_delta]"
  "recorded ex_failed = [example_delta, example_failed]"
  using example_seqs
  by (simp_all add: ex_failed_def terminal_finish_def log_call_def apply_terminal_def apply_event_def apply_event_locked_def
      set_status_def send_live_def release_def resequence_def example_defs Let_def)

lemma reach_failed: "reachable plain_serde example_config ex_failed"
proof -
  have "\<not> terminal_durable ''r'' ex_failing" by (simp add: terminal_durable_def example_defs)
  then have "terminal_contract example_config (tq_run_id failed_request) (tq_events failed_request) (Inr terminal_rows) ex_failing"
    using example_seqs
    by (auto simp: terminal_contract_def after_all_def resequence_def failed_request_def ex_failing_def ex_recorded_def
        example_delta_def example_failed_def example_run_def)
  moreover have "gate ex_failing = Some (InTerminal failed_request)" by (simp add: ex_failing_def)
  ultimately show ?thesis
    unfolding ex_failed_def by (intro reachable.step [OF reach_failing] svc_step.terminal_end)
qed

subsection \<open>Safety of every interleaving\<close>

text \<open>
  In every reachable state the retained history of a run is bounded by the configured
  number of events and its sequence numbers increase strictly.
\<close>

theorem retained_history:
  assumes "reachable sd cfg s" "0 < max_events_per_run cfg" "runs s r = Some run"
  shows "length (events run) \<le> max_events_per_run cfg \<and> sorted_wrt (<) (map seq (events run))"
  using reachable_inv [OF assms(1,2)] record_ok_some [of cfg s r run] assms(3) by (simp add: svc_inv_def order_ok_def)

theorem retained_history_witness:
  "runs ex_recorded ''r'' = Some (example_run\<lparr>events := [example_delta]\<rparr>) \<and> length [example_delta] \<le> max_events_per_run example_config"
  using retained_history [OF reach_recorded, of "''r''" "example_run\<lparr>events := [example_delta]\<rparr>"]
  by (simp add: ex_recorded_def ex_admitted_def example_config_def)

text \<open>
  C2. With persistence, an event that is in a run's history, waits to be sent or was sent to
  live subscribers is part of a persistence call that succeeded: durable before visible.
\<close>

theorem durable_before_visible:
  assumes "reachable sd cfg s" "0 < max_events_per_run cfg" "has_persistence cfg"
    "e \<in> set (recorded s) \<union> set (sending s) \<union> set (published s)"
  shows "\<exists>call \<in> set (durable s). event_id e \<in> call_ids (call_payload call)"
  using reachable_inv [OF assms(1,2)] assms(3,4) by (auto simp: svc_inv_def visible_durable_def durable_ids_def)

theorem durable_before_visible_witness:
  "example_failed \<in> set (published ex_failed) \<and> (\<exists>call \<in> set (durable ex_failed). ''b'' \<in> call_ids (call_payload call))"
  using durable_before_visible [OF reach_failed, of example_failed] ex_failed_fields(1)
  by (simp add: example_config_def example_failed_def)



text \<open>
  C29. The delivery task never meets a closed channel: the \<open>expect\<close> on the sender of an active
  run cannot panic.
\<close>

theorem delivery_sender_exists:
  assumes "reachable sd cfg s" "0 < max_events_per_run cfg" "gate s = Some (InDeliver r rc)"
  shows "fst (deliver_finish cfg r rc answer s) \<noteq> SenderMissing"
proof -
  have "svc_inv cfg s" by (rule reachable_inv [OF assms(1,2)])
  then show ?thesis using deliver_finish_core(2) assms(2,3) by (simp add: svc_inv_split gate_ok_def)
qed

theorem delivery_sender_exists_witness:
  "fst (deliver_finish example_config ''r'' delta_reserved (Inr JNull) ex_delivering) \<noteq> SenderMissing"
  by (rule delivery_sender_exists [OF reach_delivering]) (simp_all add: example_config_def ex_delivering_def)


subsection \<open>Progress\<close>

lemma run_ended_log [simp]: "run_ended r (log_call cfg c a s) = run_ended r s"
  by (simp add: run_ended_def)

lemma run_ended_mark [simp]: "run_ended r (mark_terminal r' s) = run_ended r s"
  by (simp add: run_ended_def mark_terminal_def split: option.split)

lemma run_ended_park: "runs s r = Some run \<Longrightarrow> run_ended r (park r p s)"
  by (simp add: park_def) (simp add: run_ended_def register_pending_terminal_def set_status_def run_is_terminal_def)

lemma terminal_finish_ended:
  assumes "runs s (tq_run_id tq) = Some run" "run_is_terminal (tq_to_status tq)"
    "terminal_finish sd cfg tq answer now instant s = (out, s')"
  shows "out = Committed \<and> run_ended (tq_run_id tq) s' \<or> (\<exists>error p. out = TerminalPersistFailed error p) \<and> runs s' = runs s"
proof (cases "terminal_seqs cfg (tq_events tq) answer")
  case (Inl e)
  then show ?thesis using assms(3) by (auto simp: terminal_finish_def Let_def)
next
  case (Inr seqs)
  let ?s1 = "log_call cfg (terminal_call sd (tq_run_id tq) (tq_session_id tq) (tq_to_status tq) (tq_events tq) (tq_message tq) now)
      answer s"
  have "runs ?s1 (tq_run_id tq) = Some run" using assms(1) by simp
  from apply_events_shape [OF this, of cfg "map (resequence seqs) (tq_events tq)"]
  obtain run' zs where "fold (\<lambda>ev. apply_event cfg (tq_run_id tq) (resequence seqs ev)) (tq_events tq) ?s1 =
      ?s1\<lparr>runs := (runs ?s1)(tq_run_id tq \<mapsto> run'), recorded := recorded ?s1 @ zs\<rparr>"
    by (auto simp: fold_map comp_def)
  then show ?thesis
    using Inr assms(2,3)
    by (auto simp: terminal_finish_def Let_def apply_terminal_def set_status_def send_live_def run_ended_def)
qed

lemma finish_ended_ends:
  assumes "\<And>e s. begin_once e s = commit_ended_begin sd cfg t st r data (u e) (now e) s" "run_is_terminal st"
  shows "runs s r = Some run \<Longrightarrow> 0 < n \<Longrightarrow> run_ended r (finish_ended sd cfg begin_once r k n env s)"
proof (induction n arbitrary: k s)
  case (Suc n)
  show ?case
  proof (cases "run_is_terminal (status run)")
    case True
    then show ?thesis
      using Suc.prems by (simp add: assms(1) commit_ended_begin_def run_attempt_def run_ended_def)
  next
    case False
    let ?e = "env k"
    obtain tq where tq: "begin_once ?e s = Reserve (InTerminal tq)" "tq_run_id tq = r" "tq_to_status tq = st"
      using False Suc.prems(1) by (simp add: assms(1) commit_ended_begin_def)
    obtain out s' where fin: "terminal_finish sd cfg tq (at_answer ?e) (at_now ?e) (at_instant ?e) s = (out, s')"
      by (cases "terminal_finish sd cfg tq (at_answer ?e) (at_now ?e) (at_instant ?e) s")
    have "out = Committed \<and> run_ended r s' \<or> (\<exists>error p. out = TerminalPersistFailed error p) \<and> runs s' = runs s"
      using terminal_finish_ended [OF _ _ fin] tq(2,3) Suc.prems(1) assms(2) by simp
    then show ?thesis
      using tq(1) fin Suc.IH [of s' "Suc k"] Suc.prems(1) run_ended_park by (auto simp: run_attempt_def)
  qed
qed simp

lemma finish_cancelled_ends: "runs s r = Some run \<Longrightarrow> run_ended r (finish_cancelled sd cfg r reason env s)"
  unfolding finish_cancelled_def
  by (rule finish_ended_ends [where st = "''cancelled''"]) (simp_all add: commit_cancelled_begin_def run_is_terminal_def)

lemma finish_failed_ends: "runs s r = Some run \<Longrightarrow> run_ended r (finish_failed sd cfg r data env s)"
  unfolding finish_failed_def
  by (rule finish_ended_ends [where st = "''failed''"]) (simp_all add: commit_failed_begin_def run_is_terminal_def)

lemma commit_completed_begin_cases:
  "commit_completed_begin sd cfg r sid out_text u clk s = Done NotActive \<or>
   commit_completed_begin sd cfg r sid out_text u clk s = Done SessionMissing \<or>
   (\<exists>tq. commit_completed_begin sd cfg r sid out_text u clk s = Reserve (InTerminal tq) \<and> tq_run_id tq = r \<and>
      tq_to_status tq = ''completed'')"
  unfolding commit_completed_begin_def Let_def by (auto split: option.split)

lemma finish_completed_ends:
  "runs s r = Some run \<Longrightarrow> 0 < n \<Longrightarrow> run_ended r (finish_completed_from sd cfg r sid out_text k n env env2 s)"
proof (induction n arbitrary: k s)
  case (Suc n)
  let ?e = "env k"
  let ?b = "commit_completed_begin sd cfg r sid out_text (at_u ?e) (at_clk ?e) s"
  consider "?b = Done NotActive" | "?b = Done SessionMissing"
    | tq where "?b = Reserve (InTerminal tq)" "tq_run_id tq = r" "tq_to_status tq = ''completed''"
    using commit_completed_begin_cases by blast
  then show ?case
  proof cases
    case 1
    then show ?thesis using Suc.prems(1) finish_cancelled_ends by (simp add: run_attempt_def)
  next
    case 2
    then show ?thesis using Suc.prems(1) finish_failed_ends by (simp add: run_attempt_def)
  next
    case (3 tq)
    obtain out s' where fin: "terminal_finish sd cfg tq (at_answer ?e) (at_now ?e) (at_instant ?e) s = (out, s')"
      by (cases "terminal_finish sd cfg tq (at_answer ?e) (at_now ?e) (at_instant ?e) s")
    have "out = Committed \<and> run_ended r s' \<or> (\<exists>error p. out = TerminalPersistFailed error p) \<and> runs s' = runs s"
      using terminal_finish_ended [OF _ _ fin] 3 Suc.prems(1) by (simp add: run_is_terminal_def)
    then show ?thesis
      using 3(1) fin Suc.IH [of s' "Suc k"] Suc.prems(1) run_ended_park by (auto simp: run_attempt_def)
  qed
qed simp

text \<open>
  C7. Every finish reaches a terminal status: whatever the persistence worker answers to the
  \<open>1 + terminal_persist_retries\<close> attempts, after \<open>finish_completed\<close>, \<open>finish_cancelled\<close> or
  \<open>finish_failed\<close> the run is completed, failed, cancelled or \<open>terminal_pending\<close>.
\<close>

theorem finish_reaches_terminal:
  assumes "runs s r = Some run"
  shows "run_ended r (finish_completed sd cfg r sid output env env2 s) \<and>
    run_ended r (finish_cancelled sd cfg r reason env s) \<and> run_ended r (finish_failed sd cfg r data env s)"
  using finish_completed_ends [OF assms] finish_cancelled_ends [OF assms] finish_failed_ends [OF assms]
  by (simp add: finish_completed_def del: finish_completed_from.simps)

definition example_env :: "nat \<Rightarrow> attempt_env" where
  "example_env _ = \<lparr>at_u = (\<lambda>_. ''u''), at_clk = (\<lambda>_. 0), at_answer = Inl (''storage_unavailable'', []), at_now = 0, at_instant = 0\<rparr>"

theorem finish_reaches_terminal_witness:
  "run_ended ''r'' (finish_failed plain_serde example_config ''r'' JNull example_env ex_admitted)"
  using finish_reaches_terminal [of ex_admitted "''r''" example_run plain_serde example_config "''s''" "[]" example_env example_env "[]" JNull]
  by (simp add: ex_admitted_def)

lemma retry_outcome_cases:
  assumes "retry_pending_terminal sd cfg r instant answer now s = (out, s')"
  shows "out = RetryFailed \<Longrightarrow> pending s' = pending s \<and> (\<exists>p. pending s r = Some p \<and> instant < pt_deadline p)"
    "out \<noteq> RetryFailed \<Longrightarrow> pending s' r = None"
proof -
  have keeps: "pending (log_call cfg c a x) = pending x" "pending (send_live r' evs x) = pending x"
      "pending (close_run_stream r' x) = pending x" for c a x r' evs
    by (simp_all add: send_live_def close_run_stream_def split: option.split)
  show "out = RetryFailed \<Longrightarrow> pending s' = pending s \<and> (\<exists>p. pending s r = Some p \<and> instant < pt_deadline p)"
    using assms
    by (auto simp: retry_pending_terminal_def retry_begin_def retry_finish_def keeps Let_def split: option.splits if_splits sum.splits)
  show "out \<noteq> RetryFailed \<Longrightarrow> pending s' r = None"
    using assms
    by (auto simp: retry_pending_terminal_def retry_begin_def retry_finish_def keeps clear_pending_terminal_def Let_def
        split: option.splits if_splits sum.splits)
qed

text \<open>
  C27. The retry loop of a pending terminal ends: once a tick reaches the deadline of the pending
  terminal the loop has returned, whatever the worker answered, and the pending entry is gone.
\<close>

theorem retry_loop_ends:
  assumes "pending s r = Some p" "list_ex (\<lambda>t. pt_deadline p \<le> tk_instant t) ticks"
  shows "\<exists>out s'. terminal_retry_loop sd cfg r ticks s = (Some out, s') \<and> out \<noteq> RetryFailed \<and> pending s' r = None"
  using assms
proof (induction ticks arbitrary: s)
  case (Cons t ts)
  obtain out s' where step: "retry_pending_terminal sd cfg r (tk_instant t) (tk_answer t) (tk_now t) s = (out, s')"
    by (cases "retry_pending_terminal sd cfg r (tk_instant t) (tk_answer t) (tk_now t) s")
  show ?case
  proof (cases "out = RetryFailed")
    case True
    then show ?thesis
      using retry_outcome_cases(1) [OF step] Cons.IH [of s'] Cons.prems step by auto
  next
    case False
    then show ?thesis
      using retry_outcome_cases(2) [OF step] step by (cases out) simp_all
  qed
qed simp

definition example_pending :: pending_terminal where
  "example_pending = \<lparr>pt_to_status = ''failed'', pt_session_id = None, pt_events = [example_failed], pt_message = None,
     pt_deadline = 60\<rparr>"

theorem retry_loop_ends_witness:
  "\<exists>out s'. terminal_retry_loop plain_serde example_config ''r''
      [\<lparr>tk_instant = 30, tk_answer = Inl (''storage_unavailable'', []), tk_now = 0\<rparr>,
       \<lparr>tk_instant = 60, tk_answer = Inl (''storage_unavailable'', []), tk_now = 0\<rparr>]
      (register_pending_terminal ''r'' example_pending ex_admitted) = (Some out, s')"
  using retry_loop_ends [of "register_pending_terminal ''r'' example_pending ex_admitted" "''r''" example_pending
      "[\<lparr>tk_instant = 30, tk_answer = Inl (''storage_unavailable'', []), tk_now = 0\<rparr>,
       \<lparr>tk_instant = 60, tk_answer = Inl (''storage_unavailable'', []), tk_now = 0\<rparr>]" plain_serde example_config]
  by (auto simp: register_pending_terminal_def example_pending_def Let_def)

subsection \<open>Tool steps and the live stream\<close>

lemma bound_durable_id_nonempty:
  assumes "utf8_valid r" "r \<noteq> []" "\<not> is_cont (hd s)" "s \<noteq> []"
  shows "bound_durable_id (r @ s) \<noteq> []"
proof -
  obtain g gs where chars: "chars r = g # gs" using assms(2) by (cases r) simp_all
  then have "utf8_scalar g" using assms(1) by (simp add: utf8_valid_def)
  then have "length g \<le> MAX_DURABLE_ID_BYTES" "g \<noteq> []"
    by (cases g rule: utf8_scalar.cases; simp add: MAX_DURABLE_ID_BYTES_def)+
  then show ?thesis using chars assms(3,4) by (simp add: bound_durable_id_scan chars_append)
qed

text \<open>
  C36. The replay check of a tool step compares bounded ids. When run id and call id fill the
  bound of 128 bytes, a call whose start is recorded cannot record anything else: the
  completion with its result is answered with success and is neither persisted nor published.
\<close>

theorem long_call_id_drops_result:
  assumes "runs s r = Some run" "\<not> run_is_terminal (status run)" "MAX_DURABLE_ID_BYTES \<le> length (r @ '':tool:'' @ c)"
    "c \<noteq> []" "r \<noteq> []" "utf8_valid r" "str_field ''tool_call_id'' data = Some c"
    "list_ex (\<lambda>e. event_id e = durable_tool_event_id r c ''tool.started'') (events run)"
  shows "commit_step_begin sd cfg r False ''tool.completed'' data (Some res) uuid clk s = Done (Inr ())"
proof -
  have same: "durable_tool_event_id r c t = bound_durable_id (r @ '':tool:'' @ c)" for t
    using bound_durable_id_prefix [of "r @ '':tool:'' @ c" "'':'' @ t"] assms(3)
    by (simp add: durable_tool_event_id_def is_cont_def)
  have "durable_tool_event_id r c ''tool.completed'' \<noteq> []"
    using bound_durable_id_nonempty [OF assms(6,5), of "'':tool:'' @ c"] same by (simp add: is_cont_def)
  then show ?thesis
    using assms same by (simp add: commit_step_begin_def tool_call_of_def tool_event_id_def event_present_def)
qed

definition long_call :: string where
  "long_call = replicate 125 CHR ''c''"

definition started_event :: gateway_event where
  "started_event = example_delta\<lparr>event_id := durable_tool_event_id ''r'' long_call ''tool.started'', ev_type := ''tool.started''\<rparr>"

theorem long_call_id_drops_result_witness:
  "commit_step_begin plain_serde example_config ''r'' False ''tool.completed'' (jobject [(''tool_call_id'', JString long_call)])
     (Some (tool_success ''done'' JNull)) ''u'' (\<lambda>_. 0)
     (ex_admitted\<lparr>runs := [''r'' \<mapsto> example_run\<lparr>events := [started_event]\<rparr>]\<rparr>) = Done (Inr ())"
proof (rule long_call_id_drops_result [where run = "example_run\<lparr>events := [started_event]\<rparr>" and c = long_call])
  show "MAX_DURABLE_ID_BYTES \<le> length (''r'' @ '':tool:'' @ long_call)" "long_call \<noteq> []"
    by (simp_all add: long_call_def MAX_DURABLE_ID_BYTES_def)
  show "utf8_valid ''r''" by (rule utf8_valid_ascii) (simp add: is_ascii_def)
  show "str_field ''tool_call_id'' (jobject [(''tool_call_id'', JString long_call)]) = Some long_call"
    by (simp add: str_field_def jget_jobject)
qed (simp_all add: example_run_def run_is_terminal_def started_event_def)

lemma map_of_fold_jinsert: "map_of (fold (\<lambda>(k, v). jinsert k v) kvs m) = map_of m ++ map_of (rev kvs)"
proof (induction kvs arbitrary: m)
  case (Cons kv kvs)
  then show ?case by (cases kv) (simp add: map_add_def fun_eq_iff split: option.split)
qed simp

text \<open>
  C39. What a subscriber reads: a field of the event data replaces the envelope field of the same
  name, so that the sequence number and the run id of the frame are the service's own only if
  the data does not name them.
\<close>

theorem sse_envelope:
  assumes "ev_data ev = JObject entries" "distinct (map fst entries)"
  shows "jget ''seq'' (sse_payload ev) = Some (case map_of entries ''seq'' of Some v \<Rightarrow> v | None \<Rightarrow> JNumber (PosInt (of_nat (seq ev)))) \<and>
    jget ''run_id'' (sse_payload ev) = Some (case map_of entries ''run_id'' of Some v \<Rightarrow> v | None \<Rightarrow> JString (ev_run_id ev))"
proof -
  have "map_of (rev entries) = map_of entries"
    using assms(2) by (subst map_of_inject_set) (simp_all add: rev_map [symmetric])
  then show ?thesis
    using assms(1)
    by (simp add: sse_payload_def Let_def jget_def jobject_def map_of_fold_jinsert map_add_def split: option.split)
qed

theorem sse_envelope_witness:
  "jget ''seq'' (sse_payload (example_delta\<lparr>ev_data := JObject [(''seq'', JNull)]\<rparr>)) = Some JNull"
  using sse_envelope [of "example_delta\<lparr>ev_data := JObject [(''seq'', JNull)]\<rparr>" "[(''seq'', JNull)]"] by simp

text \<open>A stop that lands while a completed terminal is being persisted is answered but has no effect.\<close>

lemma stop_overtaken:
  assumes "runs s r = Some run" "status run = ''started''" "handles s r = Some h"
    and "tq_run_id tq = r" "tq_to_status tq = ''completed''" "terminal_seqs cfg (tq_events tq) answer = Inr seqs"
  shows "fst (stop r s) = Some ''stopping'' \<and>
    (\<exists>run'. runs (snd (terminal_finish sd cfg tq answer now instant (snd (stop r s)))) r = Some run' \<and> status run' = ''completed'')"
proof -
  let ?s = "snd (stop r s)"
  have s: "runs ?s r = Some (run\<lparr>status := ''stopping''\<rparr>)" "fst (stop r s) = Some ''stopping''"
    using assms(1-3) by (simp_all add: stop_def set_status_def)
  let ?s1 = "log_call cfg (terminal_call sd r (tq_session_id tq) ''completed'' (tq_events tq) (tq_message tq) now) answer ?s"
  have "runs ?s1 r = Some (run\<lparr>status := ''stopping''\<rparr>)" using s by simp
  from apply_events_shape [OF this, of cfg "map (resequence seqs) (tq_events tq)"]
  obtain run' zs where "fold (\<lambda>ev. apply_event cfg r (resequence seqs ev)) (tq_events tq) ?s1 =
      ?s1\<lparr>runs := (runs ?s1)(r \<mapsto> run'), recorded := recorded ?s1 @ zs\<rparr>"
    by (auto simp: fold_map comp_def)
  then show ?thesis
    using assms(4-6) s(2) by (auto simp: terminal_finish_def Let_def apply_terminal_def set_status_def send_live_def)
qed

subsection \<open>The delivery loop\<close>

definition delivery_ok :: "delivery_input \<Rightarrow> bool" where
  "delivery_ok i \<longleftrightarrow> \<not> isl (validate_script_event (di_value i)) \<and> \<not> isl (di_answer i)"

definition sent_as :: "serde \<Rightarrow> gateway_config \<Rightarrow> delivery_input \<Rightarrow> gateway_event \<Rightarrow> bool" where
  "sent_as sd cfg i ev \<longleftrightarrow> validate_script_event (di_value i) = Inr (ev_type ev) \<and> event_id ev = di_uuid i \<and>
     ev_data ev = (if max_event_bytes cfg < length (display sd (script_event_data sd (di_value i)))
       then jobject [(''truncated'', JBool True), (''original_bytes'', JString ''over_limit'')]
       else script_event_data sd (di_value i))"

lemma deliver_one:
  assumes "runs s r = Some run" "\<not> run_is_terminal (status run)" "sender run"
    "validate_script_event (di_value i) = Inr t" "\<not> isl (di_answer i)"
  obtains rc s' run' where
    "deliver_begin sd cfg r t (script_event_data sd (di_value i)) (di_uuid i) (di_now i) (di_now_ms i) s = Reserve (InDeliver r rc)"
    "deliver_finish cfg r rc (di_answer i) s = (Published (rc_event rc), s')" "sent_as sd cfg i (rc_event rc)"
    "published s' = published s" "runs s' r = Some run'" "\<not> run_is_terminal (status run')" "sender run'"
proof -
  let ?ev = "event_candidate sd run t (script_event_data sd (di_value i)) (max_event_bytes cfg) (di_uuid i) (di_now i)"
  let ?rc = "\<lparr>rc_event = ?ev, rc_message = None,
      rc_call = \<lparr>call_op = EventAppend, call_payload = event_append_payload sd cfg r ?ev (di_now_ms i)\<rparr>\<rparr>"
  let ?out = "deliver_finish cfg r ?rc (di_answer i) s"
  have "\<exists>x. persist_result cfg (di_answer i) = Inr x"
    using assms(5) by (cases "di_answer i") (simp_all add: persist_result_def)
  then have fin: "fst ?out = Published ?ev" "published (snd ?out) = published s"
      "runs (snd ?out) r = Some (apply_event_locked (max_events_per_run cfg) ?ev run)"
    using assms(1,3) by (auto simp: deliver_finish_def Let_def apply_event_def)
  show thesis
  proof (rule that [of ?rc "snd ?out" "apply_event_locked (max_events_per_run cfg) ?ev run"])
    show "deliver_begin sd cfg r t (script_event_data sd (di_value i)) (di_uuid i) (di_now i) (di_now_ms i) s = Reserve (InDeliver r ?rc)"
      using assms(1,2) by (simp add: deliver_begin_def run_is_terminal_def Let_def)
    show "?out = (Published (rc_event ?rc), snd ?out)" using fin(1) by (simp add: prod_eq_iff)
    show "sent_as sd cfg i (rc_event ?rc)" using assms(4) by (simp add: sent_as_def event_candidate_def Let_def)
  qed (use fin assms(2,3) in simp_all)
qed

text \<open>
  C30. On an active run whose events all satisfy the schema and are all appended durably, the
  delivery task publishes exactly the received events, in order, each with its type and its
  data within the size limit, counts them and reports no failure.
\<close>

theorem delivery_task_exact:
  assumes "runs s r = Some run" "\<not> run_is_terminal (status run)" "sender run" "list_all delivery_ok inputs"
  shows "\<exists>s' evs. run_delivery_task sd cfg r inputs out s = Some (out\<lparr>delivered := delivered out + length inputs\<rparr>, s') \<and>
    published s' = published s @ evs \<and> list_all2 (sent_as sd cfg) inputs evs"
  using assms
proof (induction inputs arbitrary: s run out)
  case (Cons i "is")
  obtain t where t: "validate_script_event (di_value i) = Inr t"
    using Cons.prems(4) by (cases "validate_script_event (di_value i)") (simp_all add: delivery_ok_def)
  from Cons.prems(4) have "\<not> isl (di_answer i)" by (simp add: delivery_ok_def)
  from deliver_one [OF Cons.prems(1-3) t this, of sd cfg]
  obtain rc s1 run1 where one:
    "deliver_begin sd cfg r t (script_event_data sd (di_value i)) (di_uuid i) (di_now i) (di_now_ms i) s = Reserve (InDeliver r rc)"
    "deliver_finish cfg r rc (di_answer i) s = (Published (rc_event rc), s1)" "sent_as sd cfg i (rc_event rc)"
    "published s1 = published s" "runs s1 r = Some run1" "\<not> run_is_terminal (status run1)" "sender run1"
    by blast
  let ?s2 = "deliver_send (rc_event rc) s1" and ?out = "out\<lparr>delivered := delivered out + 1\<rparr>"
  have "runs ?s2 r = Some run1" "published ?s2 = published s @ [rc_event rc]"
    using one(4,5) by (simp_all add: deliver_send_def)
  with Cons.IH [of ?s2 run1 ?out] one(6,7) Cons.prems(4)
  obtain s' evs where "run_delivery_task sd cfg r is ?out ?s2 = Some (?out\<lparr>delivered := delivered ?out + length is\<rparr>, s')"
    "published s' = published s @ rc_event rc # evs" "list_all2 (sent_as sd cfg) is evs"
    by auto
  then show ?case
    using t one(1-3) by (intro exI [of _ s'] exI [of _ "rc_event rc # evs"]) simp
qed simp

theorem delivery_task_exact_witness:
  "\<exists>s' evs. run_delivery_task plain_serde example_config ''r''
      [\<lparr>di_value = example_value, di_uuid = ''a'', di_now = 0, di_now_ms = 0, di_answer = Inr JNull\<rparr>]
      \<lparr>schema_violation = None, persist_failed = False, delivered = 0\<rparr> ex_admitted =
      Some (\<lparr>schema_violation = None, persist_failed = False, delivered = 1\<rparr>, s')"
proof -
  let ?i = "\<lparr>di_value = example_value, di_uuid = ''a'', di_now = 0, di_now_ms = 0, di_answer = Inr JNull\<rparr>"
  have "list_all delivery_ok [?i]"
    by (simp add: delivery_ok_def validate_script_event_def example_value_def CANONICAL_SCRIPT_EVENTS_def)
  then show ?thesis
    using delivery_task_exact [of ex_admitted "''r''" example_run "[?i]" plain_serde example_config
        "\<lparr>schema_violation = None, persist_failed = False, delivered = 0\<rparr>"]
    by (auto simp: ex_admitted_def example_run_def run_is_terminal_def simp del: run_delivery_task.simps)
qed

end
