(* ===== verification/Run_Stream.thy ===== *)
theory Run_Stream
  imports Run_Properties
begin

section \<open>Replay and the live SSE stream (\<open>gateway/api_server.rs\<close>)\<close>

text \<open>
  The \<open>/events\<close> handler of a run: under the store lock it checks the cursor against the retained
  history, subscribes and takes the history after the cursor; \<open>event_stream\<close> then yields the
  history, and the live channel until a terminal event, a lag or the end of the channel. The
  channel is the list of what \<open>recv\<close> returns.
\<close>

datatype replay_error = RunNotFound | EventCursorTooOld nat

definition cursor_too_old :: "u64 option \<Rightarrow> run_record \<Rightarrow> nat option" where
  "cursor_too_old after_seq run =
     (case (after_seq, events run) of
        (Some cursor, e # _) \<Rightarrow> if unat (sat_add64 cursor 1) < seq e then Some (seq e) else None
      | _ \<Rightarrow> None)"

definition run_events_handler ::
  "u64 option \<Rightarrow> string \<Rightarrow> service \<Rightarrow> (replay_error, gateway_event list \<times> bool) result" where
  "run_events_handler after_seq run_id s =
     (case runs s run_id of
        None \<Rightarrow> Inl RunNotFound
      | Some run \<Rightarrow>
          (case cursor_too_old after_seq run of
             Some earliest \<Rightarrow> Inl (EventCursorTooOld earliest)
           | None \<Rightarrow>
               Inr (filter (\<lambda>e. case after_seq of None \<Rightarrow> True | Some cursor \<Rightarrow> unat cursor < seq e) (events run), sender run)))"

datatype received = Received gateway_event | Lagged nat | Closed

datatype sse_item = EventItem gateway_event | LagItem nat

fun event_stream_live :: "bool \<Rightarrow> received list \<Rightarrow> sse_item list" where
  "event_stream_live done [] = []"
| "event_stream_live done (x # xs) =
     (if done then []
      else
        (case x of
           Received e \<Rightarrow> EventItem e # event_stream_live (event_is_terminal e) xs
         | Lagged n \<Rightarrow> LagItem n # event_stream_live True xs
         | Closed \<Rightarrow> []))"

fun event_stream :: "gateway_event list \<Rightarrow> bool \<Rightarrow> bool \<Rightarrow> received list \<Rightarrow> sse_item list" where
  "event_stream (e # history) receiver done live = EventItem e # event_stream history receiver (done \<or> event_is_terminal e) live"
| "event_stream [] receiver done live = (if done \<or> \<not> receiver then [] else event_stream_live False live)"

section \<open>Facts\<close>

lemma live_done: "event_stream_live True xs = []"
  by (cases xs) simp_all

lemma event_stream_split:
  "event_stream history receiver done live = map EventItem history @
     (if done \<or> list_ex event_is_terminal history \<or> \<not> receiver then [] else event_stream_live False live)"
  by (induction history receiver "done" live rule: event_stream.induct) auto

lemma live_stops:
  "event_stream_live False (map Received before @ Received e # after) = map EventItem (before @ [e])"
  if "event_is_terminal e" "\<not> list_ex event_is_terminal before"
  using that by (induction before) (simp_all add: live_done)

lemma not_too_old:
  assumes "cursor_too_old (Some c) run = None" "order_ok cfg r run rec" "e \<in> set (of_run r rec)" "unat c < seq e"
  shows "e \<in> set (events run)"
proof -
  have "events run \<noteq> []" using assms(2,3) by (auto simp: order_ok_def)
  then obtain x xs where ev: "events run = x # xs" by (cases "events run") simp_all
  then have "seq x \<le> unat (sat_add64 c 1)" using assms(1) by (auto simp: cursor_too_old_def split: if_splits)
  also have "\<dots> \<le> seq e" using assms(4) by (simp add: unat_sat_add64)
  finally show ?thesis using assms(2,3) ev by (auto simp: order_ok_def)
qed

text \<open>A subscriber of the execution in which the script event is sent late never sees it.\<close>

lemma late_event_lost:
  "event_stream_live False (map Received [] @ Received example_failed # [Received example_delta]) = [EventItem example_failed]"
  using live_stops [of example_failed "[]" "[Received example_delta]"] by (simp add: event_is_terminal_def example_failed_def)

text \<open>
  C14. A reconnect loses nothing. In every reachable state, a client that asks for the events
  after its cursor either is told that the cursor is too old, or gets, in increasing order and
  only above its cursor, a history that contains every event ever recorded for the run with a
  larger sequence number; and when the terminal event is in it the stream is exactly that history.
\<close>

theorem replay_complete:
  assumes "reachable sd cfg s" "0 < max_events_per_run cfg" "run_events_handler (Some cursor) r s = Inr (history, receiver)"
  shows "sorted_wrt (<) (map seq history) \<and> list_all (\<lambda>e. unat cursor < seq e) history \<and>
    list_all (\<lambda>e. unat cursor < seq e \<longrightarrow> e \<in> set history) (of_run r (recorded s)) \<and>
    (list_ex event_is_terminal history \<longrightarrow> event_stream history receiver False live = map EventItem history)"
proof -
  obtain run where run: "runs s r = Some run" "cursor_too_old (Some cursor) run = None"
      "history = filter (\<lambda>e. unat cursor < seq e) (events run)"
    using assms(3) by (auto simp: run_events_handler_def split: option.splits)
  have ok: "order_ok cfg r run (recorded s)"
    using reachable_inv [OF assms(1,2)] record_ok_some [OF _ run(1)] by (simp add: svc_inv_def)
  have "sorted_wrt (<) (map seq history)"
    using ok run(3) by (simp add: order_ok_def sorted_wrt_map sorted_wrt_filter)
  moreover have "list_all (\<lambda>e. unat cursor < seq e \<longrightarrow> e \<in> set history) (of_run r (recorded s))"
    using not_too_old [OF run(2) ok] run(3) by (auto simp: list_all_iff)
  ultimately show ?thesis using run(3) by (simp add: list_all_iff event_stream_split)
qed

lemma ex_failed_run:
  "runs ex_failed ''r'' = Some (example_run\<lparr>events := [example_delta, example_failed], status := ''failed''\<rparr>)"
  using example_seqs
  by (simp add: ex_failed_def terminal_finish_def log_call_def apply_terminal_def apply_event_def apply_event_locked_def
      set_status_def send_live_def release_def resequence_def example_defs Let_def)

theorem replay_complete_witness:
  "event_stream [example_failed] True False [Received example_delta] = [EventItem example_failed]"
proof -
  have "run_events_handler (Some 1) ''r'' ex_failed = Inr ([example_failed], True)"
    using ex_failed_run
    by (simp add: run_events_handler_def cursor_too_old_def example_delta_def example_failed_def example_run_def
        unat_sat_add64)
  from replay_complete [OF reach_failed _ this, of "[Received example_delta]"] show ?thesis
    by (simp add: example_config_def event_is_terminal_def example_failed_def)
qed

end
