(* ===== verification/Opaque_Handles.thy ===== *)
theory Opaque_Handles
  imports Agent_Prelude
begin

section \<open>Opaque host values (\<open>host_opaque.rs\<close>)\<close>

text \<open>
  Handles that scripts can copy but not make: a process-wide pool hands out callable prototype
  ids from the top of the \<open>u32\<close> range downwards, a registry maps its live ids to a class and a
  payload. A registry and a payload are identified by a name (the code compares \<open>Arc\<close> pointers);
  a registry that was dropped has none. The payload's type test is an argument. \<open>minted\<close> is
  history: what each id was minted for.
\<close>

definition OPAQUE_ID_FLOOR :: u32 where "OPAQUE_ID_FLOOR = push_bit 31 1"

definition MAX_LIVE_OPAQUE_HANDLES :: nat where "MAX_LIVE_OPAQUE_HANDLES = 64"

datatype opaque_error = LiveHandleLimit | PrototypeIdSpaceExhausted

record 'p registered =
  reg_class :: string
  reg_payload :: 'p
  reg_generation :: u64

record 'p registry =
  by_id :: "(u32 \<times> 'p registered) list"
  generation :: u64

record 'p opaque_host_value =
  h_class :: string
  h_payload :: 'p
  h_registry :: nat
  h_generation :: u64
  h_prototype_id :: u32

text \<open>A callable of the VM: its prototype id, whether it is a host function, whether it has an environment.\<close>

record callable =
  prototype_id :: u32
  host_function :: bool
  has_env :: bool

record 'p opaque_world =
  pool_next :: u32
  registries :: "nat \<rightharpoonup> 'p registry"
  next_registry :: nat
  minted :: "u32 \<rightharpoonup> (nat \<times> 'p registered)"
  issued :: "'p opaque_host_value list"

definition initial_world :: "'p opaque_world" where
  "initial_world = \<lparr>pool_next = - 1, registries = Map.empty, next_registry = 0, minted = Map.empty, issued = []\<rparr>"

definition allocate_prototype_id :: "u32 \<Rightarrow> (opaque_error, u32 \<times> u32) result" where
  "allocate_prototype_id next =
     (if next < OPAQUE_ID_FLOOR then Inl PrototypeIdSpaceExhausted
      else Inr (next, if next = 0 then 0 else next - 1))"

definition registry_new :: "'p opaque_world \<Rightarrow> 'p opaque_world" where
  "registry_new w =
     w\<lparr>registries := (registries w)(next_registry w \<mapsto> \<lparr>by_id = [], generation = 0\<rparr>), next_registry := next_registry w + 1\<rparr>"

definition update_registry :: "nat \<Rightarrow> ('p registry \<Rightarrow> 'p registry) \<Rightarrow> 'p opaque_world \<Rightarrow> 'p opaque_world" where
  "update_registry r f w =
     (case registries w r of None \<Rightarrow> w | Some g \<Rightarrow> w\<lparr>registries := (registries w)(r \<mapsto> f g)\<rparr>)"

definition registry_clear :: "nat \<Rightarrow> 'p opaque_world \<Rightarrow> 'p opaque_world" where
  "registry_clear r w = update_registry r (\<lambda>g. g\<lparr>by_id := []\<rparr>) w"

definition revoke :: "nat \<Rightarrow> u32 \<Rightarrow> 'p opaque_world \<Rightarrow> 'p opaque_world" where
  "revoke r i w = update_registry r (\<lambda>g. g\<lparr>by_id := filter (\<lambda>(j, _). j \<noteq> i) (by_id g)\<rparr>) w"

definition registry_drop :: "nat \<Rightarrow> 'p opaque_world \<Rightarrow> 'p opaque_world" where
  "registry_drop r w = w\<lparr>registries := (registries w)(r := None)\<rparr>"

definition make_handle :: "nat \<Rightarrow> u32 \<Rightarrow> 'p registered \<Rightarrow> 'p opaque_host_value" where
  "make_handle r i e = \<lparr>h_class = reg_class e, h_payload = reg_payload e, h_registry = r,
     h_generation = reg_generation e, h_prototype_id = i\<rparr>"

definition mint ::
  "nat \<Rightarrow> string \<Rightarrow> 'p \<Rightarrow> 'p opaque_world \<Rightarrow> (opaque_error, 'p opaque_host_value) result \<times> 'p opaque_world" where
  "mint r cls payload w =
     (case registries w r of
        None \<Rightarrow> (Inl LiveHandleLimit, w)
      | Some g \<Rightarrow>
          if MAX_LIVE_OPAQUE_HANDLES \<le> length (by_id g) then (Inl LiveHandleLimit, w)
          else
            (case allocate_prototype_id (pool_next w) of
               Inl error \<Rightarrow> (Inl error, w)
             | Inr (i, next) \<Rightarrow>
                 (let gen = sat_add64 (generation g) 1;
                      e = \<lparr>reg_class = cls, reg_payload = payload, reg_generation = gen\<rparr>;
                      g = g\<lparr>generation := gen, by_id := (i, e) # filter (\<lambda>(j, _). j \<noteq> i) (by_id g)\<rparr>
                  in (Inr (make_handle r i e),
                      w\<lparr>pool_next := next, registries := (registries w)(r \<mapsto> g), minted := (minted w)(i \<mapsto> (r, e)),
                        issued := make_handle r i e # issued w\<rparr>))))"

definition from_vm_value :: "nat \<Rightarrow> callable option \<Rightarrow> 'p opaque_world \<Rightarrow> 'p opaque_host_value option" where
  "from_vm_value r value w =
     (case value of
        None \<Rightarrow> None
      | Some c \<Rightarrow>
          if \<not> host_function c \<or> has_env c then None
          else
            (case registries w r of
               None \<Rightarrow> None
             | Some g \<Rightarrow> map_option (make_handle r (prototype_id c)) (map_of (by_id g) (prototype_id c))))"

definition registry_contains :: "u32 \<Rightarrow> u64 \<Rightarrow> string \<Rightarrow> 'p registry \<Rightarrow> bool" where
  "registry_contains i gen cls g =
     (case map_of (by_id g) i of None \<Rightarrow> False | Some e \<Rightarrow> reg_generation e = gen \<and> reg_class e = cls)"

definition downcast_arc :: "('p \<Rightarrow> bool) \<Rightarrow> 'p opaque_host_value \<Rightarrow> 'p opaque_world \<Rightarrow> 'p option" where
  "downcast_arc has_type h w =
     (case registries w (h_registry h) of
        None \<Rightarrow> None
      | Some g \<Rightarrow>
          if \<not> registry_contains (h_prototype_id h) (h_generation h) (h_class h) g then None
          else if has_type (h_payload h) then Some (h_payload h) else None)"


definition handle_ptr_eq :: "'p opaque_host_value \<Rightarrow> 'p opaque_host_value \<Rightarrow> bool" where
  "handle_ptr_eq a b \<longleftrightarrow> h_prototype_id a = h_prototype_id b \<and> h_registry a = h_registry b"

subsection \<open>Sequences of calls\<close>

datatype 'p opaque_op =
    NewRegistry
  | Mint nat string 'p
  | FromVm nat "callable option"
  | Revoke nat u32
  | Clear nat
  | DropRegistry nat

fun opaque_step :: "'p opaque_op \<Rightarrow> 'p opaque_world \<Rightarrow> 'p opaque_world" where
  "opaque_step NewRegistry w = registry_new w"
| "opaque_step (Mint r cls payload) w = snd (mint r cls payload w)"
| "opaque_step (FromVm r value) w =
     (case from_vm_value r value w of None \<Rightarrow> w | Some h \<Rightarrow> w\<lparr>issued := h # issued w\<rparr>)"
| "opaque_step (Revoke r i) w = revoke r i w"
| "opaque_step (Clear r) w = registry_clear r w"
| "opaque_step (DropRegistry r) w = registry_drop r w"

section \<open>The invariant\<close>

definition registry_ok :: "nat \<Rightarrow> 'p registry \<Rightarrow> 'p opaque_world \<Rightarrow> bool" where
  "registry_ok r g w \<longleftrightarrow> r < next_registry w \<and> length (by_id g) \<le> MAX_LIVE_OPAQUE_HANDLES \<and> distinct (map fst (by_id g)) \<and>
     (\<forall>(i, e) \<in> set (by_id g). minted w i = Some (r, e))"

definition opaque_inv :: "'p opaque_world \<Rightarrow> bool" where
  "opaque_inv w \<longleftrightarrow>
     (\<forall>i r e. minted w i = Some (r, e) \<longrightarrow> pool_next w < i \<and> OPAQUE_ID_FLOOR \<le> i \<and> r < next_registry w) \<and>
     (\<forall>r g. registries w r = Some g \<longrightarrow> registry_ok r g w) \<and>
     (\<forall>h \<in> set (issued w). \<exists>e. minted w (h_prototype_id h) = Some (h_registry h, e) \<and> h = make_handle (h_registry h) (h_prototype_id h) e)"

lemma floor_positive: "OPAQUE_ID_FLOOR \<noteq> 0"
  by (simp add: OPAQUE_ID_FLOOR_def)

lemma allocate_fresh:
  assumes "allocate_prototype_id n = Inr (i, n')"
  shows "i = n" "OPAQUE_ID_FLOOR \<le> i" "n' < i"
proof -
  show "i = n" "OPAQUE_ID_FLOOR \<le> i" using assms by (auto simp: allocate_prototype_id_def split: if_splits)
  then have "i \<noteq> 0" using floor_positive by auto
  then have "0 < unat i" by (simp add: unat_gt_0)
  then have "i - 1 < i" using \<open>i \<noteq> 0\<close> by (simp add: word_less_nat_alt unat_minus_one)
  then show "n' < i" using assms \<open>i = n\<close> \<open>i \<noteq> 0\<close> by (auto simp: allocate_prototype_id_def split: if_splits)
qed

lemma registry_ok_subset:
  "registry_ok r g w \<Longrightarrow> registry_ok r (g\<lparr>by_id := filter P (by_id g)\<rparr>) w"
  by (auto simp: registry_ok_def distinct_map_filter intro: le_trans [OF length_filter_le])

lemma registry_ok_same [simp]:
  "registry_ok r g (w\<lparr>registries := x\<rparr>) = registry_ok r g w" "registry_ok r g (w\<lparr>issued := hs\<rparr>) = registry_ok r g w"
  by (simp_all add: registry_ok_def)

lemma update_registry_inv:
  assumes "opaque_inv w" "\<And>g. registry_ok r g w \<Longrightarrow> registry_ok r (f g) w"
  shows "opaque_inv (update_registry r f w)"
  using assms unfolding opaque_inv_def update_registry_def by (auto split: option.split)

lemma mint_cases:
  "snd (mint r cls payload w) = w \<or>
   (\<exists>g i e n gen. registries w r = Some g \<and> length (by_id g) < MAX_LIVE_OPAQUE_HANDLES \<and>
      allocate_prototype_id (pool_next w) = Inr (i, n) \<and> reg_payload e = payload \<and> reg_class e = cls \<and>
      snd (mint r cls payload w) = w\<lparr>pool_next := n,
        registries := (registries w)(r \<mapsto> g\<lparr>generation := gen, by_id := (i, e) # filter (\<lambda>(j, _). j \<noteq> i) (by_id g)\<rparr>),
        minted := (minted w)(i \<mapsto> (r, e)), issued := make_handle r i e # issued w\<rparr>)"
proof (cases "\<exists>g i n. registries w r = Some g \<and> length (by_id g) < MAX_LIVE_OPAQUE_HANDLES \<and>
    allocate_prototype_id (pool_next w) = Inr (i, n)")
  case True
  then obtain g i n where g: "registries w r = Some g" "length (by_id g) < MAX_LIVE_OPAQUE_HANDLES"
    "allocate_prototype_id (pool_next w) = Inr (i, n)" by blast
  let ?gen = "sat_add64 (generation g) 1"
  let ?e = "\<lparr>reg_class = cls, reg_payload = payload, reg_generation = ?gen\<rparr>"
  show ?thesis
    using g by (intro disjI2 exI [of _ g] exI [of _ i] exI [of _ ?e] exI [of _ n] exI [of _ ?gen]) (simp add: mint_def Let_def)
next
  case False
  then show ?thesis by (auto simp: mint_def not_le split: option.split sum.split)
qed

lemma mint_inv:
  assumes inv: "opaque_inv w"
  shows "opaque_inv (snd (mint r cls payload w))"
proof (cases "snd (mint r cls payload w) = w")
  case False
  then obtain g i e n gen where g: "registries w r = Some g" "length (by_id g) < MAX_LIVE_OPAQUE_HANDLES"
    and alloc: "allocate_prototype_id (pool_next w) = Inr (i, n)"
    and w': "snd (mint r cls payload w) = w\<lparr>pool_next := n,
        registries := (registries w)(r \<mapsto> g\<lparr>generation := gen, by_id := (i, e) # filter (\<lambda>(j, _). j \<noteq> i) (by_id g)\<rparr>),
        minted := (minted w)(i \<mapsto> (r, e)), issued := make_handle r i e # issued w\<rparr>" (is "_ = ?w'")
    using mint_cases [of r cls payload w] by blast
  note fresh = allocate_fresh [OF alloc]
  have unused: "minted w i = None"
    using inv fresh(1) by (cases "minted w i") (auto simp: opaque_inv_def)
  have old: "registry_ok r' g' ?w'" if ok: "registry_ok r' g' w" for r' g'
    using ok unused by (fastforce simp: registry_ok_def)
  have okg: "registry_ok r g w" using inv g(1) by (simp add: opaque_inv_def)
  let ?rest = "filter (\<lambda>(j, _). j \<noteq> i) (by_id g)"
  have "Suc (length ?rest) \<le> MAX_LIVE_OPAQUE_HANDLES" using le_less_trans [OF length_filter_le g(2)] by (rule Suc_leI)
  then have "registry_ok r (g\<lparr>generation := gen, by_id := (i, e) # ?rest\<rparr>) ?w'"
    using okg g(2) unused by (auto simp: registry_ok_def distinct_map_filter)
  moreover have "n < j \<and> OPAQUE_ID_FLOOR \<le> j \<and> r' < next_registry w" if m: "minted ?w' j = Some (r', e')" for j r' e'
  proof (cases "j = i")
    case True
    then show ?thesis using m fresh okg by (auto simp: registry_ok_def)
  next
    case False
    then have "minted w j = Some (r', e')" using m by simp
    then have "pool_next w < j \<and> OPAQUE_ID_FLOOR \<le> j \<and> r' < next_registry w"
      using inv unfolding opaque_inv_def by blast
    then show ?thesis using fresh(1,3) less_trans by blast
  qed
  moreover have "\<exists>e'. minted ?w' (h_prototype_id h) = Some (h_registry h, e') \<and> h = make_handle (h_registry h) (h_prototype_id h) e'"
    if "h \<in> set (issued ?w')" for h
    using that inv unused by (auto simp: opaque_inv_def make_handle_def)
  ultimately show ?thesis
    unfolding w' using inv old by (auto simp: opaque_inv_def)
qed (simp add: inv)

lemma from_vm_inv:
  assumes "opaque_inv w" "from_vm_value r value w = Some h"
  shows "opaque_inv (w\<lparr>issued := h # issued w\<rparr>)"
proof -
  obtain g e i where g: "registries w r = Some g" "map_of (by_id g) i = Some e" "h = make_handle r i e"
    using assms(2) by (auto simp: from_vm_value_def split: option.splits if_splits)
  then have "minted w i = Some (r, e)"
    using assms(1) map_of_SomeD by (fastforce simp: opaque_inv_def registry_ok_def)
  then show ?thesis using assms(1) g(3) by (auto simp: opaque_inv_def make_handle_def)
qed

interpretation opaque_machine: step_machine opaque_step opaque_inv
proof
  fix w :: "'p opaque_world" and op
  assume inv: "opaque_inv w"
  show "opaque_inv (opaque_step op w)"
  proof (cases op)
    case NewRegistry
    have "registry_ok r g (registry_new w)" if "registry_ok r g w" for r and g :: "'p registry"
      using that by (auto simp: registry_ok_def registry_new_def)
    moreover have "registry_ok (next_registry w) \<lparr>by_id = [], generation = 0\<rparr> (registry_new w)"
      by (simp add: registry_ok_def registry_new_def)
    ultimately show ?thesis
      using inv NewRegistry unfolding opaque_inv_def
      by (auto simp: registry_new_def less_Suc_eq split: if_splits)
  next
    case (FromVm r v)
    then show ?thesis using inv from_vm_inv by (auto split: option.split)
  next
    case (DropRegistry r)
    then show ?thesis using inv by (auto simp: opaque_inv_def registry_drop_def)
  next
    case (Mint r cls payload)
    then show ?thesis using mint_inv [OF inv] by simp
  next
    case (Revoke r i)
    then show ?thesis using update_registry_inv [OF inv registry_ok_subset] by (simp add: revoke_def)
  next
    case (Clear r)
    then show ?thesis
      using update_registry_inv [OF inv registry_ok_subset [where P = "\<lambda>_. False", simplified]] by (simp add: registry_clear_def)
  qed
qed

lemma initial_inv: "opaque_inv initial_world"
  by (simp add: opaque_inv_def initial_world_def)

subsection \<open>A revoked handle stays dead\<close>

definition handle_dead :: "nat \<Rightarrow> u32 \<Rightarrow> 'p opaque_world \<Rightarrow> bool" where
  "handle_dead r i w \<longleftrightarrow> r < next_registry w \<and> pool_next w < i \<and>
     (case registries w r of None \<Rightarrow> True | Some g \<Rightarrow> map_of (by_id g) i = None)"

lemma map_of_filter_none: "map_of xs i = None \<Longrightarrow> map_of (filter P xs) i = None"
  by (auto simp: map_of_eq_None_iff)

lemma update_registry_dead:
  assumes "handle_dead r i w" "\<And>g. map_of (by_id g) i = None \<Longrightarrow> map_of (by_id (f g)) i = None"
  shows "handle_dead r i (update_registry r' f w)"
  using assms by (auto simp: handle_dead_def update_registry_def split: option.splits)

lemma mint_dead:
  assumes "handle_dead r i w"
  shows "handle_dead r i (snd (mint r' cls payload w))"
proof (cases "snd (mint r' cls payload w) = w")
  case False
  then obtain g j e n gen where g: "registries w r' = Some g" and alloc: "allocate_prototype_id (pool_next w) = Inr (j, n)"
    and w': "snd (mint r' cls payload w) = w\<lparr>pool_next := n,
        registries := (registries w)(r' \<mapsto> g\<lparr>generation := gen, by_id := (j, e) # filter (\<lambda>(k, _). k \<noteq> j) (by_id g)\<rparr>),
        minted := (minted w)(j \<mapsto> (r', e)), issued := make_handle r' j e # issued w\<rparr>"
    using mint_cases [of r' cls payload w] by blast
  have "j \<noteq> i" "n < i" using assms allocate_fresh [OF alloc] by (auto simp: handle_dead_def)
  then show ?thesis using assms g unfolding w' by (auto simp: handle_dead_def map_of_filter_none split: option.splits)
qed (simp add: assms)

interpretation dead_machine: step_machine opaque_step "handle_dead r i" for r i
proof
  fix w :: "'p opaque_world" and op
  assume dead: "handle_dead r i w"
  show "handle_dead r i (opaque_step op w)"
  proof (cases op)
    case NewRegistry
    then show ?thesis using dead by (auto simp: handle_dead_def registry_new_def split: option.splits)
  next
    case (Mint r' cls payload)
    then show ?thesis using mint_dead [OF dead] by simp
  next
    case (FromVm r' v)
    then show ?thesis using dead by (auto simp: handle_dead_def split: option.split)
  next
    case (DropRegistry r')
    then show ?thesis using dead by (auto simp: handle_dead_def registry_drop_def)
  qed (use dead in \<open>auto simp: revoke_def registry_clear_def intro!: update_registry_dead map_of_filter_none\<close>)
qed

section \<open>Properties\<close>


text \<open>
  C20. Revocation is final: after a handle was revoked, its registry cleared or dropped, no later
  sequence of calls makes it resolve again.
\<close>

theorem opaque_revoked_forever:
  fixes before later :: "'p opaque_op list"
  defines "w \<equiv> fold opaque_step before initial_world"
  assumes "h \<in> set (issued w)" "op \<in> {Revoke (h_registry h) (h_prototype_id h), Clear (h_registry h), DropRegistry (h_registry h)}"
  shows "downcast_arc has_type h (fold opaque_step (op # later) w) = None"
proof -
  have inv: "opaque_inv w" unfolding w_def by (rule opaque_machine.run_inv [OF initial_inv])
  then have "pool_next w < h_prototype_id h" "h_registry h < next_registry w"
    using assms(2) unfolding opaque_inv_def by metis+
  then have "handle_dead (h_registry h) (h_prototype_id h) (opaque_step op w)"
    using assms(3) by (cases "registries w (h_registry h)")
      (auto simp: handle_dead_def revoke_def registry_clear_def registry_drop_def update_registry_def map_of_eq_None_iff)
  from dead_machine.run_inv [OF this, of later] show ?thesis
    by (auto simp: handle_dead_def downcast_arc_def registry_contains_def split: option.splits)
qed

definition opaque_example :: "string opaque_op list" where
  "opaque_example = [NewRegistry, Mint 0 ''store'' ''payload'']"

definition opaque_example_handle :: "string opaque_host_value" where
  "opaque_example_handle = \<lparr>h_class = ''store'', h_payload = ''payload'', h_registry = 0, h_generation = 1, h_prototype_id = - 1\<rparr>"

lemma opaque_example_issued: "issued (fold opaque_step opaque_example initial_world) = [opaque_example_handle]"
  by (simp add: opaque_example_def opaque_example_handle_def initial_world_def registry_new_def mint_def allocate_prototype_id_def
      make_handle_def OPAQUE_ID_FLOOR_def MAX_LIVE_OPAQUE_HANDLES_def sat_add64_def Let_def)


theorem opaque_revoked_forever_witness:
  "downcast_arc (\<lambda>_. True) opaque_example_handle
     (fold opaque_step (Revoke 0 (- 1) # [Mint 0 ''other'' ''x'']) (fold opaque_step opaque_example initial_world)) = None"
  using opaque_revoked_forever [of opaque_example_handle opaque_example "Revoke 0 (- 1)" "\<lambda>_. True" "[Mint 0 ''other'' ''x'']"]
  by (simp add: opaque_example_issued opaque_example_handle_def)

end
