(* ===== verification/Telegram_Render.thy ===== *)
theory Telegram_Render
  imports Json_Value
begin

section \<open>Rendering of run events for Telegram (\<open>gateway/telegram_render.rs\<close>, \<open>gateway/telegram.rs\<close>)\<close>

text \<open>
  The pure renderer, which turns an event into bounded send and edit actions, and the driver
  that performs them against the Bot API. The API is a parameter, \<open>bot_api\<close>: \<open>sendMessage\<close> and
  \<open>editMessageText\<close> on the state of a chat, and what the chat shows. What is relied on is
  \<open>bot_api_ok\<close>: a sent message is shown last under a new id, an edit replaces the text of its
  message, a refused call changes nothing. The clock, the answers of the delivery cursor's storage,
  the events replayed and received, and whether the session's reset epoch is still current are
  arguments of the driver.
\<close>

definition TELEGRAM_MAX_UTF16 :: nat where "TELEGRAM_MAX_UTF16 = 4096"

datatype render_action = Send string | SendDelta string | Edit int string

record event_renderer =
  current_message_id :: "int option"
  current_text :: string

definition renderer_new :: event_renderer where
  "renderer_new = \<lparr>current_message_id = None, current_text = []\<rparr>"

definition note_sent :: "int \<Rightarrow> event_renderer \<Rightarrow> event_renderer" where
  "note_sent message_id r = r\<lparr>current_message_id := Some message_id\<rparr>"

subsection \<open>Chunks\<close>

definition utf16_units :: "string list \<Rightarrow> nat" where
  "utf16_units chs = sum_list (map len_utf16 chs)"

definition utf16_len :: "string \<Rightarrow> nat" where
  "utf16_len s = utf16_units (chars s)"

fun chunk_chars :: "string list \<Rightarrow> string \<Rightarrow> nat \<Rightarrow> string list" where
  "chunk_chars [] current current_len = (if current = [] then [] else [current])"
| "chunk_chars (ch # chs) current current_len =
     (if TELEGRAM_MAX_UTF16 < current_len + len_utf16 ch \<and> current \<noteq> []
      then current # chunk_chars chs ch (len_utf16 ch)
      else chunk_chars chs (current @ ch) (current_len + len_utf16 ch))"

definition chunk_text :: "string \<Rightarrow> string list" where
  "chunk_text s = (if utf16_len s \<le> TELEGRAM_MAX_UTF16 then [s] else chunk_chars (chars s) [] 0)"

subsection \<open>Event fields\<close>

text \<open>\<open>get(k1).or_else(|| get(k2)) ... .and_then(as_str).unwrap_or(default)\<close>\<close>

fun first_field :: "string list \<Rightarrow> json \<Rightarrow> json option" where
  "first_field [] data = None"
| "first_field (k # ks) data = (case jget k data of Some v \<Rightarrow> Some v | None \<Rightarrow> first_field ks data)"

definition string_or :: "string \<Rightarrow> json option \<Rightarrow> string" where
  "string_or dflt v = (case Option.bind v as_str of Some s \<Rightarrow> s | None \<Rightarrow> dflt)"

definition delta_text :: "json \<Rightarrow> string" where
  "delta_text data = string_or [] (first_field [''delta'', ''text''] data)"

definition tool_name :: "json \<Rightarrow> string" where
  "tool_name data =
     string_or ''unknown tool''
       (case Option.bind (jget ''tool_call'' data) (jget ''name'') of
          Some v \<Rightarrow> Some v
        | None \<Rightarrow> first_field [''tool_name'', ''name''] data)"

definition approval_state :: "json \<Rightarrow> string" where
  "approval_state data = string_or ''resolved'' (first_field [''state'', ''decision''] data)"

definition render_error_message :: "json \<Rightarrow> string" where
  "render_error_message data =
     string_or ''run failed''
       (first_field [''error_message'', ''message'', ''error'', ''error_code'', ''recovery_reason''] data)"

subsection \<open>The renderer\<close>

definition send_line :: "string \<Rightarrow> render_action list" where
  "send_line s = map Send (chunk_text s)"

definition delta_actions :: "int option \<Rightarrow> string list \<Rightarrow> render_action list" where
  "delta_actions target chunks =
     (case target of
        Some message_id \<Rightarrow> Edit message_id (hd chunks) # map SendDelta (tl chunks)
      | None \<Rightarrow> map SendDelta chunks)"

definition render_flush :: "event_renderer \<Rightarrow> render_action list \<times> event_renderer" where
  "render_flush r =
     (if current_text r = [] then ([], r)
      else (delta_actions (current_message_id r) (chunk_text (current_text r)), r\<lparr>current_text := []\<rparr>))"

definition on_delta :: "string \<Rightarrow> event_renderer \<Rightarrow> render_action list \<times> event_renderer" where
  "on_delta delta r =
     (if delta = [] then ([], r)
      else
        (let chunks = chunk_text (current_text r @ delta)
         in (delta_actions (current_message_id r) chunks, r\<lparr>current_text := last chunks\<rparr>)))"

definition on_event :: "string \<Rightarrow> json \<Rightarrow> event_renderer \<Rightarrow> render_action list \<times> event_renderer" where
  "on_event event_type data r =
     (if event_type = ''model.delta'' then on_delta (delta_text data) r
      else if event_type = ''message.delta''
      then render_flush (if delta_text data \<noteq> [] then r\<lparr>current_text := delta_text data\<rparr> else r)
      else if event_type = ''tool.requested'' then (send_line (''[tool] '' @ tool_name data @ '' requested''), r)
      else if event_type = ''tool.completed'' then (send_line (''[tool] '' @ tool_name data @ '' completed''), r)
      else if event_type = ''approval.required''
      then (send_line (''[approval] '' @ tool_name data @ '' requires approval (pending)''), r)
      else if event_type = ''approval.resolved''
      then (send_line (''[approval] '' @ tool_name data @ '': '' @ approval_state data), r)
      else if event_type = ''compact.started'' then (send_line ''[compact] started'', r)
      else if event_type = ''compact.completed'' then (send_line ''[compact] completed'', r)
      else if event_type = ''run.completed'' then (send_line ''[done]'', r)
      else if event_type = ''run.failed'' then (send_line (''[failed] '' @ render_error_message data), r)
      else if event_type = ''run.cancelled'' then (send_line ''[stopped]'', r)
      else ([], r))"

subsection \<open>The driver\<close>

record 'c bot_api =
  api_send :: "string \<Rightarrow> 'c \<Rightarrow> int option \<times> 'c"
  api_edit :: "int \<Rightarrow> string \<Rightarrow> 'c \<Rightarrow> bool \<times> 'c"
  shown :: "'c \<Rightarrow> (int \<times> string) list"

definition bot_api_ok :: "'c bot_api \<Rightarrow> bool" where
  "bot_api_ok api \<longleftrightarrow>
     (\<forall>c. distinct (map fst (shown api c))) \<and>
     (\<forall>s c. case api_send api s c of
        (Some i, c') \<Rightarrow> shown api c' = shown api c @ [(i, s)]
      | (None, c') \<Rightarrow> shown api c' = shown api c) \<and>
     (\<forall>i s c. case api_edit api i s c of
        (True, c') \<Rightarrow> shown api c' = map (\<lambda>(j, t). (j, if j = i then s else t)) (shown api c)
      | (False, c') \<Rightarrow> shown api c' = shown api c)"

text \<open>
  What one event meets while it is rendered: whether the session's reset epoch is current before
  and after each action, the clock at the same points (milliseconds), the configured edit interval,
  and the answer of \<open>delivery.advance\<close>.
\<close>

record render_env =
  epoch_current :: "nat \<Rightarrow> bool"
  clock :: "nat \<Rightarrow> nat"
  max_edit_interval :: nat
  advance_ok :: bool

record 'c render_state =
  rs_renderer :: event_renderer
  rs_chat :: 'c
  rs_last_edit :: nat
  rs_cursor :: int
  rs_advanced :: int
  rs_advance_failures :: nat

text \<open>One action, with the throttling that applies to the edits of a \<open>model.delta\<close> event.\<close>

definition perform_action ::
  "'c bot_api \<Rightarrow> bool \<Rightarrow> render_env \<Rightarrow> nat \<Rightarrow> render_action \<Rightarrow> 'c render_state \<Rightarrow> bool \<times> 'c render_state" where
  "perform_action api throttle_edits env k action st =
     (case action of
        Send s \<Rightarrow> (case api_send api s (rs_chat st) of (r, c) \<Rightarrow> (r \<noteq> None, st\<lparr>rs_chat := c\<rparr>))
      | SendDelta s \<Rightarrow>
          (case api_send api s (rs_chat st) of
             (Some i, c) \<Rightarrow> (True, st\<lparr>rs_chat := c, rs_renderer := note_sent i (rs_renderer st)\<rparr>)
           | (None, c) \<Rightarrow> (False, st\<lparr>rs_chat := c\<rparr>))
      | Edit i s \<Rightarrow>
          if throttle_edits \<and> clock env (2 * k) - rs_last_edit st < max_edit_interval env then (True, st)
          else
            (case api_edit api i s (rs_chat st) of
               (True, c) \<Rightarrow> (True, st\<lparr>rs_chat := c, rs_last_edit := clock env (2 * k + 1)\<rparr>)
             | (False, c) \<Rightarrow> (False, st\<lparr>rs_chat := c\<rparr>)))"

fun perform_actions ::
  "'c bot_api \<Rightarrow> bool \<Rightarrow> render_env \<Rightarrow> render_action list \<Rightarrow> nat \<Rightarrow> 'c render_state \<Rightarrow> bool \<times> 'c render_state" where
  "perform_actions api throttle_edits env [] k st = (True, st)"
| "perform_actions api throttle_edits env (a # as) k st =
     (if \<not> epoch_current env (2 * k) then (False, st)
      else
        (case perform_action api throttle_edits env k a st of
           (ok, st) \<Rightarrow>
             if \<not> epoch_current env (2 * k + 1) then (False, st)
             else if \<not> ok then (False, st)
             else perform_actions api throttle_edits env as (k + 1) st))"

text \<open>The cursor moves in memory even when the durable advance fails, which is counted.\<close>

definition advance_cursor :: "render_env \<Rightarrow> int \<Rightarrow> 'c render_state \<Rightarrow> 'c render_state" where
  "advance_cursor env seq st =
     (if advance_ok env then st\<lparr>rs_advanced := seq\<rparr> else st\<lparr>rs_advance_failures := rs_advance_failures st + 1\<rparr>)"

definition render_event ::
  "'c bot_api \<Rightarrow> render_env \<Rightarrow> int \<Rightarrow> string \<Rightarrow> json \<Rightarrow> 'c render_state \<Rightarrow> bool \<times> 'c render_state" where
  "render_event api env seq event_type data st =
     (case on_event event_type data (rs_renderer st) of
        (actions, r) \<Rightarrow>
          (case perform_actions api (event_type = ''model.delta'') env actions 0 (st\<lparr>rs_renderer := r\<rparr>) of
             (True, st) \<Rightarrow> (True, advance_cursor env seq (st\<lparr>rs_cursor := seq\<rparr>))
           | (False, st) \<Rightarrow> (False, st)))"

definition is_terminal_event_type :: "string \<Rightarrow> bool" where
  "is_terminal_event_type t \<longleftrightarrow> t \<in> {''run.completed'', ''run.cancelled'', ''run.failed''}"

text \<open>The final flush: a delta send does not become an edit target any more.\<close>

fun flush_actions :: "'c bot_api \<Rightarrow> render_env \<Rightarrow> render_action list \<Rightarrow> nat \<Rightarrow> 'c \<Rightarrow> 'c" where
  "flush_actions api env [] k c = c"
| "flush_actions api env (a # as) k c =
     (if \<not> epoch_current env (2 * k) then c
      else
        (case (case a of
                 Send s \<Rightarrow> (case api_send api s c of (r, c) \<Rightarrow> (r \<noteq> None, c))
               | SendDelta s \<Rightarrow> (case api_send api s c of (r, c) \<Rightarrow> (r \<noteq> None, c))
               | Edit i s \<Rightarrow> api_edit api i s c) of
           (ok, c) \<Rightarrow> if \<not> epoch_current env (2 * k + 1) \<or> \<not> ok then c else flush_actions api env as (k + 1) c))"

definition flush_renderer :: "'c bot_api \<Rightarrow> render_env \<Rightarrow> 'c render_state \<Rightarrow> 'c render_state" where
  "flush_renderer api env st =
     (case render_flush (rs_renderer st) of
        (actions, r) \<Rightarrow> st\<lparr>rs_renderer := r, rs_chat := flush_actions api env actions 0 (rs_chat st)\<rparr>)"

subsection \<open>One run's renderer\<close>

record timed_event =
  te_seq :: int
  te_type :: string
  te_data :: json
  te_env :: render_env

text \<open>
  A replay of retained events: the catch-up skips what the cursor has passed, the re-synchronisation
  after a lag what the cursor that was read back (\<open>Some\<close>) has passed.
\<close>

datatype replay_end = Undelivered | Terminal_seen | Drained

fun render_replay ::
  "'c bot_api \<Rightarrow> int option \<Rightarrow> timed_event list \<Rightarrow> 'c render_state \<Rightarrow> replay_end \<times> 'c render_state" where
  "render_replay api current [] st = (Drained, st)"
| "render_replay api current (e # es) st =
     (if te_seq e \<le> (case current of Some n \<Rightarrow> n | None \<Rightarrow> rs_cursor st) then render_replay api current es st
      else
        (case render_event api (te_env e) (te_seq e) (te_type e) (te_data e) st of
           (False, st) \<Rightarrow> (Undelivered, st)
         | (True, st) \<Rightarrow>
             if is_terminal_event_type (te_type e) then (Terminal_seen, st) else render_replay api current es st))"

text \<open>
  What the receiver yields: an event, or a lag with the cursor read back, the events replayed after
  it and whether the run can still be subscribed to. The end of the list is a closed channel.
\<close>

datatype recv = Recv timed_event | Recv_lagged int "timed_event list" bool

fun render_live :: "'c bot_api \<Rightarrow> recv list \<Rightarrow> 'c render_state \<Rightarrow> 'c render_state" where
  "render_live api [] st = st"
| "render_live api (Recv e # xs) st =
     (if te_seq e \<le> rs_cursor st
      then (if is_terminal_event_type (te_type e) then st else render_live api xs st)
      else
        (case render_event api (te_env e) (te_seq e) (te_type e) (te_data e) st of
           (False, st) \<Rightarrow> st
         | (True, st) \<Rightarrow> if is_terminal_event_type (te_type e) then st else render_live api xs st))"
| "render_live api (Recv_lagged current events resubscribed # xs) st =
     (case render_replay api (Some current) events st of
        (Drained, st) \<Rightarrow> if resubscribed then render_live api xs st else st
      | (_, st) \<Rightarrow> st)"

definition render_start :: "'c \<Rightarrow> int \<Rightarrow> nat \<Rightarrow> 'c render_state" where
  "render_start chat loaded now =
     \<lparr>rs_renderer = renderer_new, rs_chat = chat, rs_last_edit = now, rs_cursor = loaded,
      rs_advanced = loaded, rs_advance_failures = 0\<rparr>"

definition run_renderer ::
  "'c bot_api \<Rightarrow> int \<Rightarrow> nat \<Rightarrow> timed_event list \<Rightarrow> recv list option \<Rightarrow> render_env \<Rightarrow> 'c \<Rightarrow> 'c render_state" where
  "run_renderer api loaded now replayed receiver env chat =
     (case render_replay api None replayed (render_start chat loaded now) of
        (Undelivered, st) \<Rightarrow> st
      | (Terminal_seen, st) \<Rightarrow> flush_renderer api env st
      | (Drained, st) \<Rightarrow>
          (case receiver of
             None \<Rightarrow> st
           | Some xs \<Rightarrow> flush_renderer api env (render_live api xs st)))"

section \<open>Chunks are bounded and lose nothing\<close>

text \<open>A list of characters: one lead byte with its continuation bytes each, only the first may lack a lead.\<close>

definition char_groups :: "string list \<Rightarrow> bool" where
  "char_groups gs \<longleftrightarrow> (\<forall>g \<in> set gs. g \<noteq> [] \<and> list_all is_cont (tl g)) \<and> (\<forall>g \<in> set (tl gs). \<not> is_cont (hd g))"

lemma chars_groups: "char_groups (chars s)"
proof (induction s rule: chars.induct)
  case (2 c cs)
  let ?rest = "dropWhile is_cont cs"
  have "\<not> is_cont (hd g)" if g: "g \<in> set (chars ?rest)" for g
  proof (cases "?rest")
    case Nil
    show ?thesis using g unfolding Nil by simp
  next
    case (Cons x xs)
    then have "\<not> is_cont x" using hd_dropWhile [of is_cont cs] by simp
    then show ?thesis using 2 g Cons by (auto simp: char_groups_def)
  qed
  then show ?case using 2 by (auto simp: char_groups_def list_all_iff dest: set_takeWhileD)
qed (simp add: char_groups_def)

lemma chars_group: "g \<noteq> [] \<Longrightarrow> list_all is_cont (tl g) \<Longrightarrow> chars g = [g]"
  by (cases g) (simp_all add: takeWhile_eq_all_conv [THEN iffD2] dropWhile_eq_Nil_conv [THEN iffD2] list_all_iff)

lemma chars_concat_groups: "char_groups gs \<Longrightarrow> chars (concat gs) = gs"
proof (induction gs)
  case (Cons g gs)
  then have gs: "char_groups gs" by (cases gs) (auto simp: char_groups_def)
  have "concat gs = [] \<or> \<not> is_cont (hd (concat gs))"
    using Cons.prems by (cases gs) (auto simp: char_groups_def hd_append)
  then have "chars (concat (g # gs)) = chars g @ chars (concat gs)" by (simp add: chars_append)
  then show ?case using Cons.IH [OF gs] Cons.prems chars_group [of g] by (simp add: char_groups_def)
qed simp

lemma char_groups_sublist: "char_groups (xs @ ys @ zs) \<Longrightarrow> char_groups ys"
  by (cases xs; cases ys) (auto simp: char_groups_def)

lemma char_groups_parts: "char_groups (concat gss) \<Longrightarrow> gs \<in> set gss \<Longrightarrow> char_groups gs"
  using char_groups_sublist by (metis concat.simps(2) concat_append split_list)

lemma concat_concat_map: "concat (map concat xs) = concat (concat xs)"
  by (induction xs) simp_all

lemma len_utf16_le: "len_utf16 ch \<le> 2"
  by (simp add: len_utf16_def)

lemma chunk_chars_groups:
  assumes "\<forall>g \<in> set (cg @ chs). g \<noteq> []" "utf16_units cg \<le> TELEGRAM_MAX_UTF16"
  shows "\<exists>gss. chunk_chars chs (concat cg) (utf16_units cg) = map concat gss \<and> concat gss = cg @ chs \<and>
    list_all (\<lambda>gs. utf16_units gs \<le> TELEGRAM_MAX_UTF16) gss"
  using assms
proof (induction chs arbitrary: cg)
  case Nil
  show ?case
  proof (cases "cg = []")
    case True
    then show ?thesis by (intro exI [of _ "[]"]) simp
  next
    case False
    then have "concat cg \<noteq> []" using Nil.prems(1) by (cases cg) auto
    then show ?thesis using Nil.prems(2) by (intro exI [of _ "[cg]"]) simp
  qed
next
  case (Cons ch chs)
  show ?case
  proof (cases "TELEGRAM_MAX_UTF16 < utf16_units cg + len_utf16 ch \<and> concat cg \<noteq> []")
    case True
    have "utf16_units [ch] \<le> TELEGRAM_MAX_UTF16"
      using len_utf16_le [of ch] by (simp add: utf16_units_def TELEGRAM_MAX_UTF16_def)
    with Cons.IH [of "[ch]"] Cons.prems obtain gss where
      "chunk_chars chs ch (len_utf16 ch) = map concat gss" "concat gss = ch # chs"
      "list_all (\<lambda>gs. utf16_units gs \<le> TELEGRAM_MAX_UTF16) gss"
      by (auto simp: utf16_units_def)
    then show ?thesis using True Cons.prems(2) by (intro exI [of _ "cg # gss"]) simp
  next
    case False
    have "concat cg = [] \<Longrightarrow> cg = []" using Cons.prems(1) by (cases cg) auto
    then have "utf16_units (cg @ [ch]) \<le> TELEGRAM_MAX_UTF16"
      using False len_utf16_le [of ch] by (auto simp: utf16_units_def TELEGRAM_MAX_UTF16_def)
    with Cons.IH [of "cg @ [ch]"] Cons.prems(1) obtain gss where
      "chunk_chars chs (concat cg @ ch) (utf16_units cg + len_utf16 ch) = map concat gss" "concat gss = cg @ ch # chs"
      "list_all (\<lambda>gs. utf16_units gs \<le> TELEGRAM_MAX_UTF16) gss"
      by (auto simp: utf16_units_def)
    then show ?thesis using False by (intro exI [of _ gss]) auto
  qed
qed

lemma chunk_text_groups:
  "\<exists>gss. chunk_text s = map concat gss \<and> concat gss = chars s \<and> list_all (\<lambda>gs. utf16_units gs \<le> TELEGRAM_MAX_UTF16) gss \<and> gss \<noteq> []"
proof (cases "utf16_len s \<le> TELEGRAM_MAX_UTF16")
  case True
  then show ?thesis by (intro exI [of _ "[chars s]"]) (simp add: chunk_text_def utf16_len_def)
next
  case False
  then have "chars s \<noteq> []" by (auto simp: utf16_len_def utf16_units_def)
  moreover have "\<forall>g \<in> set ([] @ chars s). g \<noteq> []" using chars_nonempty by auto
  ultimately obtain gss where "chunk_chars (chars s) [] 0 = map concat gss" "concat gss = chars s"
      "list_all (\<lambda>gs. utf16_units gs \<le> TELEGRAM_MAX_UTF16) gss"
    using chunk_chars_groups [of "[]" "chars s"] by (auto simp: utf16_units_def)
  moreover have "gss \<noteq> []" using calculation(2) \<open>chars s \<noteq> []\<close> by (cases gss) simp_all
  ultimately show ?thesis using False by (intro exI [of _ gss]) (simp add: chunk_text_def)
qed

lemma chunk_text_facts:
  "concat (chunk_text s) = s" "chunk_text s \<noteq> []" "c \<in> set (chunk_text s) \<Longrightarrow> utf16_len c \<le> TELEGRAM_MAX_UTF16"
  "concat (map chars (chunk_text s)) = chars s"
proof -
  obtain gss where g: "chunk_text s = map concat gss" "concat gss = chars s"
    "list_all (\<lambda>gs. utf16_units gs \<le> TELEGRAM_MAX_UTF16) gss" "gss \<noteq> []"
    using chunk_text_groups by blast
  have chars: "chars (concat gs) = gs" if "gs \<in> set gss" for gs
    using char_groups_parts [of gss gs] chars_groups [of s] that g(2) chars_concat_groups by simp
  show "concat (chunk_text s) = s" using g(1) concat_chars [of s] by (simp add: g(2) [symmetric] concat_concat_map)
  show "chunk_text s \<noteq> []" using g(1,4) by simp
  show "c \<in> set (chunk_text s) \<Longrightarrow> utf16_len c \<le> TELEGRAM_MAX_UTF16"
    using g(1,3) chars by (auto simp: utf16_len_def list_all_iff)
  have "map chars (map concat gss) = gss" using chars by (simp add: map_idI)
  then show "concat (map chars (chunk_text s)) = chars s" using g(1,2) by simp
qed

section \<open>The delta stream\<close>

lemma bot_sendD:
  "bot_api_ok api \<Longrightarrow> api_send api s c = (Some i, c') \<Longrightarrow> shown api c' = shown api c @ [(i, s)]"
  by (auto simp: bot_api_ok_def split: option.splits prod.splits dest!: spec [of _ s])

lemma bot_distinct: "bot_api_ok api \<Longrightarrow> distinct (map fst (shown api c))"
  by (simp add: bot_api_ok_def)

lemma bot_editD:
  "bot_api_ok api \<Longrightarrow> api_edit api i s c = (True, c') \<Longrightarrow>
   shown api c' = map (\<lambda>(j, t). (j, if j = i then s else t)) (shown api c)"
  by (auto simp: bot_api_ok_def split: bool.splits prod.splits)

lemma bot_refusedD: "bot_api_ok api \<Longrightarrow> api_edit api i s c = (False, c') \<Longrightarrow> shown api c' = shown api c"
  by (auto simp: bot_api_ok_def split: prod.splits bool.splits) blast

lemma send_deltas:
  assumes "bot_api_ok api"
  shows "perform_actions api b env (map SendDelta ts) k st = (True, st') \<Longrightarrow>
    \<exists>ids. length ids = length ts \<and> shown api (rs_chat st') = shown api (rs_chat st) @ zip ids ts \<and>
      rs_renderer st' = (if ts = [] then rs_renderer st else note_sent (last ids) (rs_renderer st))"
proof (induction ts arbitrary: k st)
  case (Cons t ts)
  obtain i c where sent: "api_send api t (rs_chat st) = (Some i, c)"
    using Cons.prems by (auto simp: perform_action_def split: if_splits prod.splits option.splits)
  let ?st = "st\<lparr>rs_chat := c, rs_renderer := note_sent i (rs_renderer st)\<rparr>"
  have "perform_actions api b env (map SendDelta ts) (k + 1) ?st = (True, st')"
    using Cons.prems sent by (auto simp: perform_action_def split: if_splits)
  from Cons.IH [OF this] obtain ids where "length ids = length ts" "shown api (rs_chat st') = shown api c @ zip ids ts"
    "rs_renderer st' = (if ts = [] then rs_renderer ?st else note_sent (last ids) (rs_renderer ?st))"
    by auto
  then show ?case
    using bot_sendD [OF assms sent] by (intro exI [of _ "i # ids"]) (auto simp: note_sent_def)
qed simp

text \<open>
  What the chat shows after the deltas \<open>whole\<close>: messages \<open>M\<close> after those of \<open>c0\<close>, which read as \<open>whole\<close>;
  the renderer's edit target is the last of them and its text is the renderer's text.
\<close>

definition stream_shown :: "'c bot_api \<Rightarrow> 'c \<Rightarrow> string \<Rightarrow> 'c render_state \<Rightarrow> (int \<times> string) list \<Rightarrow> bool" where
  "stream_shown api c0 whole st M \<longleftrightarrow>
     shown api (rs_chat st) = shown api c0 @ M \<and> concat (map snd M) = whole \<and>
     list_all (\<lambda>m. utf16_len (snd m) \<le> TELEGRAM_MAX_UTF16) M \<and>
     rs_renderer st = (if M = [] then renderer_new else \<lparr>current_message_id = Some (fst (last M)), current_text = snd (last M)\<rparr>)"

lemma zip_bounded: "length ids = length ts \<Longrightarrow> list_all (\<lambda>t. P t) ts \<Longrightarrow> list_all (\<lambda>m. P (snd m)) (zip ids ts)"
  by (induction ids ts rule: list_induct2) simp_all

lemma edit_last:
  assumes "distinct (map fst (xs @ [(i, t)]))"
  shows "map (\<lambda>(j, x). (j, if j = i then s else x)) (xs @ [(i, t)]) = xs @ [(i, s)]"
proof -
  have "map (\<lambda>(j, x). (j, if j = i then s else x)) xs = xs"
    using assms by (intro map_idI) force
  then show ?thesis by simp
qed

text \<open>The two shapes of a delta: the first messages of the stream, or an edit of the last one and what overflows.\<close>

lemma delta_first:
  assumes api: "bot_api_ok api" and shown: "shown api (rs_chat st) = shown api c0" and r: "current_text (rs_renderer st) = last cs"
    and cs: "cs \<noteq> []" "list_all (\<lambda>t. utf16_len t \<le> TELEGRAM_MAX_UTF16) cs"
    and run: "perform_actions api b env (map SendDelta cs) k st = (True, st')"
  shows "\<exists>M. stream_shown api c0 (concat cs) st' M"
proof -
  from send_deltas [OF api run] obtain is' where new: "length is' = length cs"
      "shown api (rs_chat st') = shown api c0 @ zip is' cs" "rs_renderer st' = note_sent (last is') (rs_renderer st)"
    using cs(1) shown by auto
  have "is' \<noteq> []" using new(1) cs(1) by auto
  then have last: "last (zip is' cs) = (last is', last cs)" "zip is' cs \<noteq> []"
    using last_zip [of is' cs] new(1) cs(1) by auto
  have "rs_renderer st' = \<lparr>current_message_id = Some (last is'), current_text = last cs\<rparr>"
    using new(3) r by (simp add: note_sent_def)
  moreover have "concat (map snd (zip is' cs)) = concat cs" using new(1) by simp
  ultimately have "stream_shown api c0 (concat cs) st' (zip is' cs)"
    unfolding stream_shown_def using new(2) last zip_bounded [OF new(1) cs(2)] by simp
  then show ?thesis ..
qed

lemma delta_more:
  assumes api: "bot_api_ok api" and shown: "shown api (rs_chat st) = shown api c0 @ Ms @ [(i, t)]"
    and old: "list_all (\<lambda>m. utf16_len (snd m) \<le> TELEGRAM_MAX_UTF16) Ms"
    and r: "rs_renderer st = \<lparr>current_message_id = Some i, current_text = last (x # xs)\<rparr>"
    and cs: "list_all (\<lambda>t. utf16_len t \<le> TELEGRAM_MAX_UTF16) (x # xs)"
    and run: "perform_actions api b env (Edit i x # map SendDelta xs) 0 st = (True, st')" and open_edits: "max_edit_interval env = 0"
  shows "\<exists>M. stream_shown api c0 (concat (map snd Ms) @ concat (x # xs)) st' M"
proof -
  obtain c1 where edit: "api_edit api i x (rs_chat st) = (True, c1)"
    and sends: "perform_actions api b env (map SendDelta xs) 1 (st\<lparr>rs_chat := c1, rs_last_edit := clock env 1\<rparr>) = (True, st')"
    using run open_edits by (auto simp: perform_action_def split: if_splits prod.splits bool.splits)
  have c1: "shown api c1 = shown api c0 @ Ms @ [(i, x)]"
    using bot_editD [OF api edit] edit_last [of "shown api c0 @ Ms" i t x] shown
      bot_distinct [OF api, of "rs_chat st"] by simp
  from send_deltas [OF api sends] obtain is' where new: "length is' = length xs"
      "shown api (rs_chat st') = shown api c0 @ Ms @ (i, x) # zip is' xs"
      "rs_renderer st' = (if xs = [] then rs_renderer st else note_sent (last is') (rs_renderer st))"
    using c1 by auto
  let ?M = "Ms @ (i, x) # zip is' xs"
  have "rs_renderer st' = \<lparr>current_message_id = Some (fst (last ?M)), current_text = snd (last ?M)\<rparr>"
  proof (cases "xs = []")
    case False
    then have "is' \<noteq> []" using new(1) by auto
    then have "last ?M = (last is', last xs)" using False last_zip [of is' xs] new(1) by simp
    then show ?thesis using new(3) r False by (simp add: note_sent_def)
  qed (use new r in simp)
  moreover have "concat (map snd ?M) = concat (map snd Ms) @ concat (x # xs)" using new(1) by simp
  moreover have "list_all (\<lambda>m. utf16_len (snd m) \<le> TELEGRAM_MAX_UTF16) ?M"
    using old cs zip_bounded [OF new(1), of "\<lambda>t. utf16_len t \<le> TELEGRAM_MAX_UTF16"] by simp
  ultimately have "stream_shown api c0 (concat (map snd Ms) @ concat (x # xs)) st' ?M"
    unfolding stream_shown_def using new(2) by simp
  then show ?thesis ..
qed

lemma stream_cursor:
  "stream_shown api c0 whole (advance_cursor env n (st\<lparr>rs_cursor := n\<rparr>)) M = stream_shown api c0 whole st M"
  by (simp add: stream_shown_def advance_cursor_def)

lemma delta_step:
  assumes api: "bot_api_ok api" and inv: "stream_shown api c0 whole st M"
    and open_edits: "max_edit_interval env = 0" and run: "render_event api env n ''model.delta'' data st = (True, st')"
  shows "\<exists>M'. stream_shown api c0 (whole @ delta_text data) st' M'"
proof (cases "delta_text data = []")
  case True
  then have "st' = advance_cursor env n (st\<lparr>rs_cursor := n\<rparr>)" using run by (simp add: render_event_def on_event_def on_delta_def)
  then show ?thesis using inv True by (auto simp: stream_cursor)
next
  case False
  let ?r = "rs_renderer st" and ?d = "delta_text data"
  obtain x xs where cs: "chunk_text (current_text ?r @ ?d) = x # xs" using chunk_text_facts(2) by (meson list.exhaust)
  let ?st = "st\<lparr>rs_renderer := ?r\<lparr>current_text := last (x # xs)\<rparr>\<rparr>"
  have facts: "concat (x # xs) = current_text ?r @ ?d" "list_all (\<lambda>t. utf16_len t \<le> TELEGRAM_MAX_UTF16) (x # xs)"
    using chunk_text_facts(3) [of _ "current_text ?r @ ?d"] cs chunk_text_facts(1) [of "current_text ?r @ ?d"]
    by (auto simp: list_all_iff)
  obtain st1 where acts: "perform_actions api True env (delta_actions (current_message_id ?r) (x # xs)) 0 ?st = (True, st1)"
    and st': "st' = advance_cursor env n (st1\<lparr>rs_cursor := n\<rparr>)"
    using run False cs by (auto simp: render_event_def on_event_def on_delta_def Let_def split: prod.splits bool.splits)
  show ?thesis
  proof (cases "M = []")
    case True
    then have r: "?r = renderer_new" "whole = []" "shown api (rs_chat st) = shown api c0" using inv by (auto simp: stream_shown_def)
    then have "perform_actions api True env (map SendDelta (x # xs)) 0 ?st = (True, st1)"
      using acts by (simp add: delta_actions_def renderer_new_def)
    then have "\<exists>M'. stream_shown api c0 (concat (x # xs)) st1 M'"
      by (intro delta_first [OF api _ _ _ facts(2), where st = ?st]) (use r(3) in \<open>simp_all del: perform_actions.simps\<close>)
    then show ?thesis using facts(1) r st' by (simp add: stream_cursor renderer_new_def)
  next
    case False
    then obtain Ms i t where M: "M = Ms @ [(i, t)]" by (metis rev_exhaust surj_pair)
    have r: "?r = \<lparr>current_message_id = Some i, current_text = t\<rparr>" "whole = concat (map snd Ms) @ t"
        "shown api (rs_chat st) = shown api c0 @ Ms @ [(i, t)]" "list_all (\<lambda>m. utf16_len (snd m) \<le> TELEGRAM_MAX_UTF16) Ms"
      using inv M by (auto simp: stream_shown_def)
    have "perform_actions api True env (Edit i x # map SendDelta xs) 0 ?st = (True, st1)"
      using acts r(1) by (simp add: delta_actions_def)
    then have "\<exists>M'. stream_shown api c0 (concat (map snd Ms) @ concat (x # xs)) st1 M'"
      by (intro delta_more [OF api _ r(4) _ facts(2) _ open_edits, where st = ?st and t = t])
        (use r in \<open>simp_all del: perform_actions.simps\<close>)
    then show ?thesis using facts(1) r st' by (simp add: stream_cursor)
  qed
qed

lemma deltas_replayed:
  assumes "bot_api_ok api" "stream_shown api c0 whole st M"
    and "list_all (\<lambda>e. te_type e = ''model.delta'' \<and> max_edit_interval (te_env e) = 0) es"
    and "sorted_wrt (<) (rs_cursor st # map te_seq es)"
    and "fst (render_replay api None es st) = Drained"
  shows "\<exists>M. stream_shown api c0 (whole @ concat (map (\<lambda>e. delta_text (te_data e)) es)) (snd (render_replay api None es st)) M"
  using assms(2-5)
proof (induction es arbitrary: whole st M)
  case (Cons e es)
  obtain st' where run: "render_event api (te_env e) (te_seq e) ''model.delta'' (te_data e) st = (True, st')"
    using Cons.prems(2-4) by (auto split: prod.splits bool.splits)
  then have cursor: "rs_cursor st' = te_seq e"
    by (auto simp: render_event_def advance_cursor_def split: prod.splits bool.splits)
  from delta_step [OF assms(1) Cons.prems(1) _ run] obtain M' where "stream_shown api c0 (whole @ delta_text (te_data e)) st' M'"
    using Cons.prems(2) by auto
  from Cons.IH [OF this] show ?case
    using Cons.prems run cursor by (auto simp: is_terminal_event_type_def)
qed auto

text \<open>A text within the limit is one chunk: the final flush of a stream rewrites its last message with its own text.\<close>

lemma chunk_text_one: "utf16_len s \<le> TELEGRAM_MAX_UTF16 \<Longrightarrow> chunk_text s = [s]"
  by (simp add: chunk_text_def)


text \<open>The edit that the final text of a message leads to, when the chat refuses it.\<close>

lemma repeated_step:
  assumes api: "bot_api_ok api" "\<not> fst (api_edit api (fst (last M)) (snd (last M)) (rs_chat st))"
    and inv: "stream_shown api c0 whole st M" "M \<noteq> []" and d: "delta_text data = snd (last M)" "snd (last M) \<noteq> []"
  shows "\<exists>st'. render_event api env n ''message.delta'' data st = (False, st') \<and> rs_cursor st' = rs_cursor st \<and>
    shown api (rs_chat st') = shown api (rs_chat st)"
proof -
  let ?i = "fst (last M)" and ?t = "snd (last M)"
  have r: "rs_renderer st = \<lparr>current_message_id = Some ?i, current_text = ?t\<rparr>" "utf16_len ?t \<le> TELEGRAM_MAX_UTF16"
    using inv by (auto simp: stream_shown_def list_all_iff)
  obtain c where edit: "api_edit api ?i ?t (rs_chat st) = (False, c)" using api(2) by (metis (full_types) prod.collapse)
  show ?thesis
    using r d edit bot_refusedD [OF api(1) edit]
    by (auto simp: render_event_def on_event_def render_flush_def delta_actions_def chunk_text_one perform_action_def)
qed


section \<open>A chat that refuses an edit that changes nothing\<close>

definition list_api :: "string list bot_api" where
  "list_api =
     \<lparr>api_send = \<lambda>s c. (Some (int (length c)), c @ [s]),
      api_edit = \<lambda>i s c. if 0 \<le> i \<and> nat i < length c \<and> c ! nat i \<noteq> s then (True, c[nat i := s]) else (False, c),
      shown = \<lambda>c. zip (map int [0..<length c]) c\<rparr>"

lemma list_api_ok: "bot_api_ok list_api"
proof -
  have "zip (map int [0..<length c]) (c[nat i := s]) =
      map (\<lambda>(j, t). (j, if j = i then s else t)) (zip (map int [0..<length c]) c)" if "0 \<le> i" for i s c
    using that by (intro nth_equalityI) (auto simp: nth_list_update)
  moreover have "inj_on int A" for A by (simp add: inj_on_def)
  ultimately show ?thesis by (auto simp: bot_api_ok_def list_api_def distinct_map)
qed

definition refuses_unmodified :: "'c bot_api \<Rightarrow> bool" where
  "refuses_unmodified api \<longleftrightarrow> (\<forall>c. list_all (\<lambda>(i, s). \<not> fst (api_edit api i s c)) (shown api c))"

lemma list_api_refuses: "refuses_unmodified list_api"
  by (auto simp: refuses_unmodified_def list_api_def list_all_iff set_zip)

definition quiet_env :: render_env where
  "quiet_env = \<lparr>epoch_current = \<lambda>_. True, clock = \<lambda>_. 0, max_edit_interval = 0, advance_ok = True\<rparr>"


definition delta_event :: "int \<Rightarrow> string \<Rightarrow> timed_event" where
  "delta_event n d = \<lparr>te_seq = n, te_type = ''model.delta'', te_data = JObject [(''delta'', JString d)], te_env = quiet_env\<rparr>"

text \<open>The witnesses run on a chat with one message, which the renderer has sent.\<close>

definition one_message :: "string \<Rightarrow> string list render_state" where
  "one_message s = (render_start [s] 0 0)\<lparr>rs_renderer := \<lparr>current_message_id = Some 0, current_text = s\<rparr>\<rparr>"

lemma one_message_shown:
  "utf16_len s \<le> TELEGRAM_MAX_UTF16 \<Longrightarrow> stream_shown list_api [] s (one_message s) [(0, s)]"
  by (simp add: stream_shown_def one_message_def render_start_def list_api_def)



lemma delta_event_text: "delta_text (te_data (delta_event n d)) = d"
  by (simp add: delta_event_def delta_text_def string_or_def jget_def)











section \<open>Properties\<close>

text \<open>
  C33. \<open>chunk_text\<close> splits a text into at least one chunk, each within Telegram's limit of 4096 UTF-16
  units, without losing, reordering or cutting a character: the chunks' characters in order are the
  characters of the text.
\<close>

theorem chunk_text_exact:
  "concat (chunk_text s) = s \<and> concat (map chars (chunk_text s)) = chars s \<and> chunk_text s \<noteq> [] \<and>
   list_all (\<lambda>c. utf16_len c \<le> TELEGRAM_MAX_UTF16) (chunk_text s)"
  using chunk_text_facts(1,2,4) [of s] chunk_text_facts(3) [of _ s] by (simp add: list_all_iff)

text \<open>
  C9. While edits are not throttled, the chat shows exactly the streamed text: when every
  \<open>model.delta\<close> event of a replay was delivered, the messages the renderer added read, in order, as
  the concatenation of the deltas, and each is within Telegram's limit.
\<close>

theorem deltas_shown_exactly:
  assumes "bot_api_ok api" "stream_shown api c0 [] st []"
    and "list_all (\<lambda>e. te_type e = ''model.delta'' \<and> max_edit_interval (te_env e) = 0) es"
    and "sorted_wrt (<) (rs_cursor st # map te_seq es)"
    and "fst (render_replay api None es st) = Drained"
  shows "\<exists>M. shown api (rs_chat (snd (render_replay api None es st))) = shown api c0 @ M \<and>
    concat (map snd M) = concat (map (\<lambda>e. delta_text (te_data e)) es) \<and>
    list_all (\<lambda>m. utf16_len (snd m) \<le> TELEGRAM_MAX_UTF16) M"
  using deltas_replayed [OF assms(1) _ assms(3-5)] assms(2) by (force simp: stream_shown_def)

theorem deltas_shown_exactly_witness:
  "\<exists>M. shown list_api [''hi'', ''abcd''] = shown list_api [''hi''] @ M \<and> concat (map snd M) = ''abcd'' \<and>
    list_all (\<lambda>m. utf16_len (snd m) \<le> TELEGRAM_MAX_UTF16) M"
  using deltas_shown_exactly [of list_api "[''hi'']" "render_start [''hi''] 0 0" "[delta_event 1 ''ab'', delta_event 2 ''cd'']"]
    list_api_ok
  by (simp add: stream_shown_def render_start_def delta_event_def quiet_env_def render_event_def on_event_def on_delta_def
      delta_text_def string_or_def chunk_text_def utf16_len_def utf16_units_def len_utf16_def TELEGRAM_MAX_UTF16_def
      delta_actions_def perform_action_def list_api_def renderer_new_def note_sent_def advance_cursor_def is_terminal_event_type_def
      is_cont_def)



text \<open>
  C38. A chat that refuses an edit which changes nothing (as the Bot API documents) stops the delivery
  of a run whose final \<open>message.delta\<close> repeats the text that was streamed into its last message: the
  event counts as undelivered and the cursor stays, so no later event of the run is rendered.
\<close>

theorem repeated_text_stops_delivery:
  assumes "bot_api_ok api" "refuses_unmodified api" "stream_shown api c0 whole st M" "M \<noteq> []"
    and "te_type e = ''message.delta''" "delta_text (te_data e) = snd (last M)" "snd (last M) \<noteq> []" "rs_cursor st < te_seq e"
  shows "rs_cursor (render_live api (Recv e # later) st) = rs_cursor st \<and>
    shown api (rs_chat (render_live api (Recv e # later) st)) = shown api (rs_chat st)"
proof -
  have "last M \<in> set (shown api (rs_chat st))" using assms(3,4) by (auto simp: stream_shown_def)
  then have "\<not> fst (api_edit api (fst (last M)) (snd (last M)) (rs_chat st))"
    using assms(2) by (auto simp: refuses_unmodified_def list_all_iff split: prod.splits)
  then obtain st' where "render_event api (te_env e) (te_seq e) ''message.delta'' (te_data e) st = (False, st')"
      "rs_cursor st' = rs_cursor st" "shown api (rs_chat st') = shown api (rs_chat st)"
    using repeated_step [OF assms(1) _ assms(3,4,6,7)] by blast
  then show ?thesis using assms(5,8) by simp
qed

theorem repeated_text_stops_delivery_witness:
  "rs_cursor (render_live list_api
     [Recv ((delta_event 1 ''ab'')\<lparr>te_type := ''message.delta''\<rparr>), Recv ((delta_event 2 [])\<lparr>te_type := ''run.completed''\<rparr>)]
     (one_message ''ab'')) = 0"
proof -
  have "utf16_len ''ab'' \<le> TELEGRAM_MAX_UTF16"
    by (simp add: utf16_len_def utf16_units_def len_utf16_def TELEGRAM_MAX_UTF16_def is_cont_def)
  from repeated_text_stops_delivery [OF list_api_ok list_api_refuses one_message_shown [OF this],
      of "(delta_event 1 ''ab'')\<lparr>te_type := ''message.delta''\<rparr>" "[Recv ((delta_event 2 [])\<lparr>te_type := ''run.completed''\<rparr>)]"]
  show ?thesis
    using delta_event_text [of 1 "''ab''"] by (simp add: delta_event_def one_message_def render_start_def del: render_live.simps)
qed

end
