(* ===== verification/Telegram_Epochs.thy ===== *)
theory Telegram_Epochs
  imports Telegram_Render
begin

section \<open>Reset epochs of Telegram sessions (\<open>gateway/telegram.rs\<close>)\<close>

text \<open>
  A chat's \<open>/new\<close> bumps the reset epoch of its session, and a renderer that was started before must
  not write into the recreated session. The table keeps an entry only while a renderer of the
  session is alive, so that it stays small; the epoch of a later entry starts at zero again. The
  record \<open>epoch_world\<close> holds the table and the run gate of every session, and the live renderers as
  ghosts: what a renderer captured and whether its session was reset since. An epoch is a \<open>nat\<close>:
  the code adds one to a \<open>u64\<close> per reset of a live session.
\<close>

record epoch_entry =
  epoch :: nat
  renderers :: nat

definition epoch_entry_default :: epoch_entry where
  "epoch_entry_default = \<lparr>epoch = 0, renderers = 0\<rparr>"

type_synonym epoch_state = "string \<rightharpoonup> epoch_entry"

definition entry_or_default :: "string \<Rightarrow> epoch_state \<Rightarrow> epoch_entry" where
  "entry_or_default s t = (case t s of Some e \<Rightarrow> e | None \<Rightarrow> epoch_entry_default)"

definition epoch_capture :: "string \<Rightarrow> epoch_state \<Rightarrow> nat \<times> epoch_state" where
  "epoch_capture s t =
     (let e = entry_or_default s t; e = e\<lparr>renderers := renderers e + 1\<rparr> in (epoch e, t(s \<mapsto> e)))"

definition epoch_release :: "string \<Rightarrow> epoch_state \<Rightarrow> epoch_state" where
  "epoch_release s t =
     (case t s of
        None \<Rightarrow> t
      | Some e \<Rightarrow>
          (let e = e\<lparr>renderers := renderers e - 1\<rparr> in if renderers e = 0 then t(s := None) else t(s \<mapsto> e)))"

definition epoch_bump :: "string \<Rightarrow> epoch_state \<Rightarrow> epoch_state" where
  "epoch_bump s t =
     (let e = entry_or_default s t; e = e\<lparr>epoch := epoch e + 1\<rparr> in if renderers e = 0 then t(s := None) else t(s \<mapsto> e))"

definition table_epoch_current :: "string \<Rightarrow> nat \<Rightarrow> epoch_state \<Rightarrow> bool" where
  "table_epoch_current s n t \<longleftrightarrow> (case t s of Some e \<Rightarrow> epoch e | None \<Rightarrow> 0) = n"

record live_renderer =
  lr_session :: string
  lr_run :: string
  lr_epoch :: nat
  lr_reset :: bool

record epoch_world =
  epochs :: epoch_state
  active_runs :: "string \<rightharpoonup> string"
  live :: "live_renderer list"

definition start_world :: epoch_world where
  "start_world = \<lparr>epochs = Map.empty, active_runs = Map.empty, live = []\<rparr>"

text \<open>The start of a renderer; the gate that is dropped when it ends, with its run's own id only.\<close>

definition spawn_renderer :: "string \<Rightarrow> string \<Rightarrow> epoch_world \<Rightarrow> epoch_world" where
  "spawn_renderer s run_id w =
     (case epoch_capture s (epochs w) of
        (n, t) \<Rightarrow> w\<lparr>epochs := t, live := live w @ [\<lparr>lr_session = s, lr_run = run_id, lr_epoch = n, lr_reset = False\<rparr>]\<rparr>)"

definition drop_gate :: "string \<Rightarrow> string \<Rightarrow> epoch_world \<Rightarrow> epoch_world" where
  "drop_gate s run_id w =
     (let w = (if active_runs w s = Some run_id then w\<lparr>active_runs := (active_runs w)(s := None)\<rparr> else w)
      in w\<lparr>epochs := epoch_release s (epochs w)\<rparr>)"

definition mark_reset :: "string \<Rightarrow> live_renderer \<Rightarrow> live_renderer" where
  "mark_reset s r = (if lr_session r = s then r\<lparr>lr_reset := True\<rparr> else r)"

datatype epoch_op = Admit string string | Spawn string string | Reset string | Clear_gate string | End nat

text \<open>
  \<open>Admit\<close> sets a session's gate, \<open>Clear_gate\<close> removes it (the end of \<open>/new\<close>), \<open>Reset\<close> is the bump of
  \<open>/new\<close>, \<open>End n\<close> the end of the \<open>n\<close>th live renderer.
\<close>

fun epoch_step :: "epoch_op \<Rightarrow> epoch_world \<Rightarrow> epoch_world" where
  "epoch_step (Admit s run_id) w = w\<lparr>active_runs := (active_runs w)(s \<mapsto> run_id)\<rparr>"
| "epoch_step (Spawn s run_id) w = spawn_renderer s run_id w"
| "epoch_step (Reset s) w =
     w\<lparr>epochs := epoch_bump s (epochs w), live := map (mark_reset s) (live w)\<rparr>"
| "epoch_step (Clear_gate s) w = w\<lparr>active_runs := (active_runs w)(s := None)\<rparr>"
| "epoch_step (End n) w =
     (if n < length (live w)
      then drop_gate (lr_session (live w ! n)) (lr_run (live w ! n)) (w\<lparr>live := take n (live w) @ drop (Suc n) (live w)\<rparr>)
      else w)"

section \<open>The invariant\<close>

definition live_in :: "string \<Rightarrow> live_renderer list \<Rightarrow> nat" where
  "live_in s rs = length (filter (\<lambda>r. lr_session r = s) rs)"

text \<open>The entry of a session counts its live renderers and is there only for them; its epoch is theirs, and above the epoch of those that were reset.\<close>

definition session_inv :: "string \<Rightarrow> epoch_state \<Rightarrow> live_renderer list \<Rightarrow> bool" where
  "session_inv s t rs \<longleftrightarrow>
     (case t s of
        None \<Rightarrow> live_in s rs = 0
      | Some e \<Rightarrow>
          renderers e = live_in s rs \<and> 0 < live_in s rs \<and>
          (\<forall>r \<in> set rs. lr_session r = s \<longrightarrow> lr_epoch r \<le> epoch e \<and> (lr_reset r \<longleftrightarrow> lr_epoch r < epoch e)))"

definition epoch_inv :: "epoch_world \<Rightarrow> bool" where
  "epoch_inv w \<longleftrightarrow> (\<forall>s. session_inv s (epochs w) (live w))"

lemma live_in_0: "live_in s rs = 0 \<longleftrightarrow> (\<forall>r \<in> set rs. lr_session r \<noteq> s)"
  by (auto simp: live_in_def filter_empty_conv)

lemma spawn_inv: "epoch_inv w \<Longrightarrow> epoch_inv (spawn_renderer s run_id w)"
  unfolding epoch_inv_def
proof
  fix s'
  assume "\<forall>s. session_inv s (epochs w) (live w)"
  then have "session_inv s' (epochs w) (live w)" "session_inv s (epochs w) (live w)" by auto
  then show "session_inv s' (epochs (spawn_renderer s run_id w)) (live (spawn_renderer s run_id w))"
    by (cases "s' = s"; cases "epochs w s")
      (auto simp: session_inv_def spawn_renderer_def epoch_capture_def entry_or_default_def epoch_entry_default_def live_in_def Let_def
        filter_empty_conv split: option.splits)
qed

lemma mark_reset_fields:
  "lr_session (mark_reset s r) = lr_session r" "lr_epoch (mark_reset s r) = lr_epoch r"
  "lr_reset (mark_reset s r) \<longleftrightarrow> lr_reset r \<or> lr_session r = s" "lr_session r \<noteq> s \<Longrightarrow> mark_reset s r = r"
  by (simp_all add: mark_reset_def)

lemma live_in_reset: "live_in s (map (mark_reset s') rs) = live_in s rs"
  by (induction rs) (simp_all add: live_in_def mark_reset_fields)

lemma session_some:
  assumes "t s = Some e" "renderers e = live_in s rs" "0 < live_in s rs"
    and "\<And>r. r \<in> set rs \<Longrightarrow> lr_session r = s \<Longrightarrow> lr_epoch r \<le> epoch e \<and> (lr_reset r \<longleftrightarrow> lr_epoch r < epoch e)"
  shows "session_inv s t rs"
  using assms by (simp add: session_inv_def)

lemma session_other:
  assumes "t' s = t s" "live_in s rs' = live_in s rs" "\<And>r. r \<in> set rs' \<Longrightarrow> lr_session r = s \<Longrightarrow> r \<in> set rs"
    and "session_inv s t rs"
  shows "session_inv s t' rs'"
  using assms by (cases "t s") (simp_all add: session_inv_def)

lemma reset_inv:
  assumes "epoch_inv w"
  shows "epoch_inv (epoch_step (Reset s) w)"
  unfolding epoch_inv_def
proof
  fix s'
  let ?rs = "map (mark_reset s) (live w)"
  have inv: "session_inv s' (epochs w) (live w)" using assms by (simp add: epoch_inv_def)
  have "session_inv s' (epoch_bump s (epochs w)) ?rs"
  proof (cases "s' = s")
    case False
    then have "r \<in> set (live w)" if "r \<in> set ?rs" "lr_session r = s'" for r using that by (auto simp: mark_reset_fields)
    moreover have "epoch_bump s (epochs w) s' = epochs w s'" using False by (simp add: epoch_bump_def Let_def)
    ultimately show ?thesis by (intro session_other [OF _ live_in_reset _ inv])
  next
    case True
    show ?thesis
    proof (cases "epochs w s")
      case None
      then show ?thesis
        using inv True live_in_reset [of s s "live w"]
        by (simp add: session_inv_def epoch_bump_def entry_or_default_def epoch_entry_default_def)
    next
      case (Some e)
      then have e: "renderers e = live_in s (live w)" "0 < live_in s (live w)"
          "\<And>r. r \<in> set (live w) \<Longrightarrow> lr_session r = s \<Longrightarrow> lr_epoch r \<le> epoch e"
        using inv True by (auto simp: session_inv_def)
      then have "epoch_bump s (epochs w) s = Some (e\<lparr>epoch := epoch e + 1\<rparr>)"
        using Some by (simp add: epoch_bump_def entry_or_default_def)
      then show ?thesis
        using e True live_in_reset [of s s "live w"] by (simp add: session_inv_def mark_reset_fields less_Suc_eq_le le_SucI)
    qed
  qed
  then show "session_inv s' (epochs (epoch_step (Reset s) w)) (live (epoch_step (Reset s) w))" by simp
qed

lemma live_in_remove:
  assumes "n < length rs"
  shows "live_in s rs = live_in s (take n rs @ drop (Suc n) rs) + (if lr_session (rs ! n) = s then 1 else 0)"
proof -
  have "live_in s rs = live_in s (take n rs @ rs ! n # drop (Suc n) rs)" using id_take_nth_drop [OF assms] by simp
  then show ?thesis by (simp add: live_in_def)
qed

lemma end_inv:
  assumes "epoch_inv w" "n < length (live w)"
  shows "epoch_inv (epoch_step (End n) w)"
  unfolding epoch_inv_def
proof
  fix s'
  let ?s = "lr_session (live w ! n)" and ?rs = "take n (live w) @ drop (Suc n) (live w)"
  have inv: "session_inv s' (epochs w) (live w)" "session_inv ?s (epochs w) (live w)" using assms(1) by (auto simp: epoch_inv_def)
  have sub: "set ?rs \<subseteq> set (live w)" by (auto dest: in_set_takeD in_set_dropD)
  have eff: "epochs (epoch_step (End n) w) = epoch_release ?s (epochs w)" "live (epoch_step (End n) w) = ?rs"
    using assms(2) by (simp_all add: drop_gate_def Let_def)
  have "session_inv s' (epoch_release ?s (epochs w)) ?rs"
  proof (cases "s' = ?s")
    case False
    then have "epoch_release ?s (epochs w) s' = epochs w s'" by (simp add: epoch_release_def Let_def split: option.split)
    moreover have "live_in s' ?rs = live_in s' (live w)" using False live_in_remove [OF assms(2), of s'] by simp
    ultimately show ?thesis using sub by (intro session_other [OF _ _ _ inv(1)]) blast+
  next
    case True
    have count: "live_in ?s (live w) = Suc (live_in ?s ?rs)" using live_in_remove [OF assms(2), of ?s] by simp
    then obtain e where e1: "epochs w ?s = Some e"
      using inv(2) by (cases "epochs w ?s") (simp_all add: session_inv_def)
    have e: "renderers e = Suc (live_in ?s ?rs)"
        "\<forall>r \<in> set (live w). lr_session r = ?s \<longrightarrow> lr_epoch r \<le> epoch e \<and> (lr_reset r \<longleftrightarrow> lr_epoch r < epoch e)"
      using inv(2) e1 count by (simp_all add: session_inv_def)
    show ?thesis
    proof (cases "live_in ?s ?rs = 0")
      case True
      then show ?thesis using e1 e(1) \<open>s' = ?s\<close> by (simp add: session_inv_def epoch_release_def)
    next
      case False
      then have "epoch_release ?s (epochs w) ?s = Some (e\<lparr>renderers := live_in ?s ?rs\<rparr>)"
        using e1 e(1) by (simp add: epoch_release_def)
      then have "session_inv ?s (epoch_release ?s (epochs w)) ?rs"
        by (rule session_some) (use e(2) sub False in auto)
      then show ?thesis using \<open>s' = ?s\<close> by simp
    qed
  qed
  then show "session_inv s' (epochs (epoch_step (End n) w)) (live (epoch_step (End n) w))" unfolding eff .
qed

interpretation epoch_machine: step_machine epoch_step epoch_inv
proof
  fix w op
  assume inv: "epoch_inv w"
  show "epoch_inv (epoch_step op w)"
  proof (cases op)
    case (End n)
    then show ?thesis using inv end_inv by (cases "n < length (live w)") auto
  qed (use inv spawn_inv reset_inv in \<open>auto simp: epoch_inv_def simp del: epoch_step.simps(3)\<close>)
qed

lemma start_inv: "epoch_inv start_world"
  by (simp add: epoch_inv_def start_world_def session_inv_def live_in_def)

section \<open>A stale renderer is silent\<close>

lemma stale_perform:
  "epoch_current env = (\<lambda>_. False) \<Longrightarrow> rs_chat (snd (perform_actions api b env as k st)) = rs_chat st"
  by (cases as) simp_all

lemma stale_flush: "epoch_current env = (\<lambda>_. False) \<Longrightarrow> flush_actions api env as k c = c"
  by (cases as) simp_all

lemma stale_render:
  assumes "epoch_current env = (\<lambda>_. False)"
  shows "rs_chat (snd (render_event api env n ty data st)) = rs_chat st" "rs_chat (flush_renderer api env st) = rs_chat st"
proof -
  obtain as r where e: "on_event ty data (rs_renderer st) = (as, r)" by fastforce
  have "rs_chat (snd (perform_actions api (ty = ''model.delta'') env as 0 (st\<lparr>rs_renderer := r\<rparr>))) = rs_chat st"
    unfolding stale_perform [OF assms] by simp
  then show "rs_chat (snd (render_event api env n ty data st)) = rs_chat st"
    using e by (auto simp: render_event_def advance_cursor_def split: prod.splits bool.splits)
  show "rs_chat (flush_renderer api env st) = rs_chat st"
    by (simp add: flush_renderer_def stale_flush [OF assms] split: prod.splits)
qed

lemma epoch_current_iff:
  assumes "epoch_inv w" "r \<in> set (live w)"
  shows "table_epoch_current (lr_session r) (lr_epoch r) (epochs w) \<longleftrightarrow> \<not> lr_reset r"
proof -
  have inv: "session_inv (lr_session r) (epochs w) (live w)" using assms(1) by (simp add: epoch_inv_def)
  have "live_in (lr_session r) (live w) \<noteq> 0" using assms(2) live_in_0 by blast
  then obtain e where e: "epochs w (lr_session r) = Some e"
    using inv by (cases "epochs w (lr_session r)") (simp_all add: session_inv_def)
  have "lr_epoch r \<le> epoch e \<and> (lr_reset r \<longleftrightarrow> lr_epoch r < epoch e)"
    using inv e assms(2) by (simp add: session_inv_def)
  then show ?thesis using e by (auto simp: table_epoch_current_def)
qed

text \<open>
  C15. A reset silences exactly the renderers it is meant for. After any sequence of admissions,
  starts, resets and ends, a live renderer finds its epoch current if and only if its session was
  not reset since it started, although the table forgets a session whenever its last renderer ends
  (it holds exactly the sessions with a live renderer). And while its epoch is not current neither
  an event nor the final flush changes the chat.
\<close>

theorem reset_silences_old_renderers:
  fixes ops :: "epoch_op list"
  defines "w \<equiv> fold epoch_step ops start_world"
  shows "(\<forall>r \<in> set (live w). table_epoch_current (lr_session r) (lr_epoch r) (epochs w) \<longleftrightarrow> \<not> lr_reset r) \<and>
    dom (epochs w) = lr_session ` set (live w) \<and>
    (\<forall>env api n ty data. epoch_current env = (\<lambda>_. False) \<longrightarrow>
       rs_chat (snd (render_event api env n ty data st)) = rs_chat st \<and> rs_chat (flush_renderer api env st) = rs_chat st)"
proof -
  have inv: "epoch_inv w" unfolding w_def by (rule epoch_machine.run_inv [OF start_inv])
  have "epochs w s = None \<longleftrightarrow> live_in s (live w) = 0" for s
    using inv [unfolded epoch_inv_def, THEN spec, of s] by (cases "epochs w s") (simp_all add: session_inv_def)
  then have "dom (epochs w) = {s. live_in s (live w) \<noteq> 0}" by (simp add: dom_def)
  then have "dom (epochs w) = lr_session ` set (live w)" by (auto simp: live_in_0)
  then show ?thesis using epoch_current_iff [OF inv] by (simp add: stale_render)
qed

theorem reset_silences_old_renderers_witness:
  "\<not> table_epoch_current ''s'' 0 (epochs (fold epoch_step [Spawn ''s'' ''r1'', Reset ''s'', Spawn ''s'' ''r2''] start_world))"
  using reset_silences_old_renderers [of "[Spawn ''s'' ''r1'', Reset ''s'', Spawn ''s'' ''r2'']", THEN conjunct1]
  by (simp add: start_world_def spawn_renderer_def epoch_capture_def entry_or_default_def epoch_entry_default_def epoch_bump_def
      mark_reset_def)

end
