(* ===== verification/Http_Guard.thy ===== *)
theory Http_Guard
  imports Content_Hash Domain_Values
begin

section \<open>The guard of the HTTP API (\<open>gateway/api_server.rs\<close>)\<close>

text \<open>
  The outermost middleware: the token-bucket rate limiter, the bearer-token comparison and the
  order in which they are consulted. The IEEE operations of \<open>f64\<close> are a parameter; nothing proved
  here depends on them. A bucket table is an association list in the iteration order of the hash
  map, a \<open>Duration\<close> or an \<open>Instant\<close> a number of nanoseconds, and the header's \<open>to_str\<close> (of the
  HTTP library) and the peer address arguments.
\<close>

unbundle bit_operations_syntax

subsection \<open>Constant-time comparison\<close>

definition byte_at :: "string \<Rightarrow> nat \<Rightarrow> u8" where
  "byte_at s i = (if i < length s then of_nat (byte (s ! i)) else 0)"

definition constant_time_eq :: "string \<Rightarrow> string \<Rightarrow> bool" where
  "constant_time_eq left right =
     (fold (\<lambda>i difference. difference OR (byte_at left i XOR byte_at right i)) [0..<max (length left) (length right)]
        (of_nat (length left XOR length right)) = 0)"

subsection \<open>The rate limiter\<close>

record 'f f64 =
  f_of_u32 :: "u32 \<Rightarrow> 'f"
  f_secs :: "nat \<Rightarrow> 'f"
  f_plus :: "'f \<Rightarrow> 'f \<Rightarrow> 'f"
  f_minus :: "'f \<Rightarrow> 'f \<Rightarrow> 'f"
  f_times :: "'f \<Rightarrow> 'f \<Rightarrow> 'f"
  f_div :: "'f \<Rightarrow> 'f \<Rightarrow> 'f"
  f_min :: "'f \<Rightarrow> 'f \<Rightarrow> 'f"
  f_max :: "'f \<Rightarrow> 'f \<Rightarrow> 'f"
  f_ceil :: "'f \<Rightarrow> 'f"
  f_one :: 'f
  f_ge :: "'f \<Rightarrow> 'f \<Rightarrow> bool"
  f_as_u64 :: "'f \<Rightarrow> u64"

record rate_limit_config =
  rl_enabled :: bool
  ip_burst :: u32
  account_burst :: u32
  window :: nat
  max_buckets :: nat

definition rate_limit_default :: rate_limit_config where
  "rate_limit_default =
     \<lparr>rl_enabled = False, ip_burst = 60, account_burst = 120, window = 60 * 10 ^ 9, max_buckets = 10000\<rparr>"

definition rate_limit_validate :: "rate_limit_config \<Rightarrow> (string, unit) result" where
  "rate_limit_validate c =
     (if ip_burst c = 0 \<or> 1000000 < ip_burst c
      then Inl ''rate_limit.ip_burst must be positive and at most 1000000''
      else if account_burst c = 0 \<or> 1000000 < account_burst c
      then Inl ''rate_limit.account_burst must be positive and at most 1000000''
      else if window c = 0 \<or> 86400 * 10 ^ 9 < window c
      then Inl ''rate_limit.window must be positive and at most 86400 seconds''
      else if max_buckets c = 0 \<or> 1000000 < max_buckets c
      then Inl ''rate_limit.max_buckets must be positive and at most 1000000''
      else Inr ())"

record 'f bucket =
  tokens :: 'f
  refilled_at :: nat

record 'f rate_limiter =
  buckets :: "(string \<times> 'f bucket) list"
  last_sweep :: nat
  rl_window :: nat
  rl_max_buckets :: nat
  sweep_interval :: nat

datatype rate_limit_outcome = Allowed | Denied u64

definition limiter_new :: "rate_limit_config \<Rightarrow> nat \<Rightarrow> 'f rate_limiter" where
  "limiter_new c now =
     \<lparr>buckets = [], last_sweep = now, rl_window = window c, rl_max_buckets = max_buckets c, sweep_interval = window c\<rparr>"

text \<open>\<open>min_by_key\<close>: the first of the minimal entries.\<close>

fun stalest :: "(string \<times> 'f bucket) list \<Rightarrow> string option" where
  "stalest [] = None"
| "stalest ((k, b) # rest) = Some (fst (fold (\<lambda>(k, b) (k', b'). if refilled_at b < refilled_at b' then (k, b) else (k', b')) rest (k, b)))"

definition sweep :: "nat \<Rightarrow> 'f rate_limiter \<Rightarrow> 'f rate_limiter" where
  "sweep now rl =
     (if sweep_interval rl \<le> now - last_sweep rl
      then rl\<lparr>buckets := filter (\<lambda>(_, b). now - refilled_at b < rl_window rl) (buckets rl), last_sweep := now\<rparr>
      else rl)"

definition make_room :: "string \<Rightarrow> 'f rate_limiter \<Rightarrow> 'f rate_limiter" where
  "make_room key rl =
     (if map_of (buckets rl) key = None \<and> rl_max_buckets rl \<le> length (buckets rl)
      then (case stalest (buckets rl) of
              Some k \<Rightarrow> rl\<lparr>buckets := filter (\<lambda>(j, _). j \<noteq> k) (buckets rl)\<rparr>
            | None \<Rightarrow> rl)
      else rl)"

definition retry_after :: "'f f64 \<Rightarrow> 'f \<Rightarrow> 'f \<Rightarrow> u64" where
  "retry_after F t rate = f_as_u64 F (f_max F (f_ceil F (f_div F (f_minus F (f_one F) t) rate)) (f_one F))"

definition put_bucket :: "string \<Rightarrow> 'f bucket \<Rightarrow> (string \<times> 'f bucket) list \<Rightarrow> (string \<times> 'f bucket) list" where
  "put_bucket key b bs =
     (if map_of bs key = None then bs @ [(key, b)] else map (\<lambda>(k, x). (k, if k = key then b else x)) bs)"

definition limiter_check ::
  "'f f64 \<Rightarrow> nat \<Rightarrow> string \<Rightarrow> 'f \<Rightarrow> 'f rate_limiter \<Rightarrow> rate_limit_outcome \<times> 'f rate_limiter" where
  "limiter_check F now key burst rl =
     (let rl = make_room key (sweep now rl);
          b = (case map_of (buckets rl) key of Some b \<Rightarrow> b | None \<Rightarrow> \<lparr>tokens = burst, refilled_at = now\<rparr>);
          rate = f_div F burst (f_secs F (rl_window rl));
          elapsed = f_secs F (now - refilled_at b);
          t = f_min F (f_plus F (tokens b) (f_times F elapsed rate)) burst
      in if f_ge F t (f_one F)
         then (Allowed, rl\<lparr>buckets := put_bucket key \<lparr>tokens = f_minus F t (f_one F), refilled_at = now\<rparr> (buckets rl)\<rparr>)
         else (Denied (retry_after F t rate), rl\<lparr>buckets := put_bucket key \<lparr>tokens = t, refilled_at = now\<rparr> (buckets rl)\<rparr>))"

subsection \<open>The middleware\<close>

datatype guard_response = Next | Unauthorized | Rate_limited u64

definition rate_limited_response :: "u64 \<Rightarrow> guard_response" where
  "rate_limited_response secs = Rate_limited (max secs 1)"

definition hex16 :: "u64 \<Rightarrow> string" where
  "hex16 w = map (\<lambda>i. hex_digit (unat (drop_bit (4 * (15 - i)) w) mod 16)) [0..<16]"

definition account_key :: "string \<Rightarrow> string" where
  "account_key expected = ''account:fnv64:'' @ hex16 (fnv1a64 expected)"

definition peer_key :: "string option \<Rightarrow> string" where
  "peer_key peer = ''ip:'' @ (case peer of Some ip \<Rightarrow> ip | None \<Rightarrow> ''no-peer'')"

definition strip_prefix :: "string \<Rightarrow> string \<Rightarrow> string option" where
  "strip_prefix p s = (if take (length p) s = p then Some (drop (length p) s) else None)"

definition authorized :: "(string \<Rightarrow> string option) \<Rightarrow> string option \<Rightarrow> string \<Rightarrow> bool" where
  "authorized to_str header expected =
     (case Option.bind (Option.bind header to_str) (strip_prefix ''Bearer '') of
        Some v \<Rightarrow> constant_time_eq v expected
      | None \<Rightarrow> False)"

record guard_request =
  gr_peer :: "string option"
  gr_authorization :: "string option"
  gr_now_ip :: nat
  gr_now_account :: nat

definition charge ::
  "'f f64 \<Rightarrow> rate_limit_config \<Rightarrow> nat \<Rightarrow> string \<Rightarrow> u32 \<Rightarrow> 'f rate_limiter \<Rightarrow> rate_limit_outcome \<times> 'f rate_limiter" where
  "charge F c now key burst rl = (if rl_enabled c then limiter_check F now key (f_of_u32 F burst) rl else (Allowed, rl))"

definition gateway_guard ::
  "'f f64 \<Rightarrow> (string \<Rightarrow> string option) \<Rightarrow> rate_limit_config \<Rightarrow> string option \<Rightarrow> guard_request \<Rightarrow> 'f rate_limiter \<Rightarrow>
   guard_response \<times> 'f rate_limiter" where
  "gateway_guard F to_str c bearer_token req rl =
     (case charge F c (gr_now_ip req) (peer_key (gr_peer req)) (ip_burst c) rl of
        (Denied secs, rl) \<Rightarrow> (rate_limited_response secs, rl)
      | (Allowed, rl) \<Rightarrow>
          (case bearer_token of
             None \<Rightarrow> (Next, rl)
           | Some expected \<Rightarrow>
               if \<not> authorized to_str (gr_authorization req) expected then (Unauthorized, rl)
               else
                 (case charge F c (gr_now_account req) (account_key expected) (account_burst c) rl of
                    (Denied secs, rl) \<Rightarrow> (rate_limited_response secs, rl)
                  | (Allowed, rl) \<Rightarrow> (Next, rl))))"

section \<open>The comparison decides equality\<close>

lemma or_fold_zero: "fold (\<lambda>i d. d OR f i) is (d :: u8) = 0 \<longleftrightarrow> d = 0 \<and> (\<forall>i \<in> set is. f i = 0)"
proof (induction "is" arbitrary: d)
  case (Cons i "is")
  have "d OR f i = 0 \<longleftrightarrow> d = 0 \<and> f i = 0" by (auto simp: bit_eq_iff bit_simps)
  then show ?case using Cons.IH [of "d OR f i"] by auto
qed simp

lemma xor_zero: "(a :: u8) XOR b = 0 \<longleftrightarrow> a = b"
  by (metis xor.left_neutral xor_self_eq xor.assoc)

lemma byte_inject: "of_nat (byte c) = (of_nat (byte d) :: u8) \<longleftrightarrow> c = d"
proof -
  have "byte x < 2 ^ 8" for x using nat_of_char_less_256 [of x] by simp
  then show ?thesis by (simp add: word_of_nat_eq_iff take_bit_nat_eq_self)
qed

lemma byte_at_zero: "i < length s \<Longrightarrow> byte_at s i = 0 \<longleftrightarrow> s ! i = CHR 0x00"
  using byte_inject [of "s ! i" "CHR 0x00"] by (simp add: byte_at_def)

lemma shorter_differs:
  assumes "length l < length r" "CHR 0x00 \<notin> set r"
  shows "byte_at l (length l) \<noteq> byte_at r (length l)"
  using assms byte_at_zero [of "length l" r] by (metis byte_at_def nat_less_le nth_mem)

lemma constant_time_eq_iff:
  assumes "CHR 0x00 \<notin> set l" "CHR 0x00 \<notin> set r"
  shows "constant_time_eq l r \<longleftrightarrow> l = r"
proof
  assume "constant_time_eq l r"
  then have same: "byte_at l i = byte_at r i" if "i < max (length l) (length r)" for i
    using that by (auto simp: constant_time_eq_def or_fold_zero xor_zero)
  then have "length l = length r"
    using shorter_differs [OF _ assms(2), of l] shorter_differs [OF _ assms(1), of r]
    by (metis linorder_neqE_nat max.strict_coboundedI1 max.strict_coboundedI2)
  then show "l = r" using same byte_inject by (intro nth_equalityI) (auto simp: byte_at_def)
qed (simp only: constant_time_eq_def or_fold_zero, simp)

section \<open>The bucket table stays within its bound\<close>

definition limiter_ok :: "'f rate_limiter \<Rightarrow> bool" where
  "limiter_ok rl \<longleftrightarrow> distinct (map fst (buckets rl)) \<and> length (buckets rl) \<le> rl_max_buckets rl \<and> 0 < rl_max_buckets rl"

lemma stalest_in: "stalest bs = Some k \<Longrightarrow> k \<in> fst ` set bs"
proof (induction bs rule: stalest.induct)
  case (2 k' b rest)
  have "fold (\<lambda>(k, b) (k', b'). if refilled_at b < refilled_at b' then (k, b) else (k', b')) xs m \<in> insert m (set xs)"
    for xs :: "(string \<times> 'a bucket) list" and m
    by (induction xs arbitrary: m) (auto split: if_splits prod.splits)
  from this [of rest "(k', b)"] 2 show ?case by (auto intro: rev_image_eqI)
qed simp

lemma filter_shorter: "x \<in> set xs \<Longrightarrow> \<not> P x \<Longrightarrow> length (filter P xs) < length xs"
  by (meson length_filter_less)

lemma sweep_ok: "limiter_ok rl \<Longrightarrow> limiter_ok (sweep now rl)"
  by (auto simp: limiter_ok_def sweep_def distinct_map_filter intro: le_trans [OF length_filter_le])

lemma make_room_ok:
  assumes "limiter_ok rl"
  shows "limiter_ok (make_room key rl) \<and>
    (map_of (buckets (make_room key rl)) key = None \<longrightarrow> length (buckets (make_room key rl)) < rl_max_buckets rl)"
proof (cases "map_of (buckets rl) key = None \<and> rl_max_buckets rl \<le> length (buckets rl)")
  case True
  then obtain k where k: "stalest (buckets rl) = Some k"
    using assms by (cases "buckets rl") (auto simp: limiter_ok_def)
  then have "length (filter (\<lambda>(j, _). j \<noteq> k) (buckets rl)) < length (buckets rl)"
    using stalest_in [OF k] by (auto intro: filter_shorter)
  then show ?thesis using True k assms by (auto simp: make_room_def limiter_ok_def distinct_map_filter)
next
  case False
  then show ?thesis using assms by (auto simp: make_room_def limiter_ok_def)
qed

lemma put_bucket_keys:
  "map fst (put_bucket key b bs) = map fst bs @ (if map_of bs key = None then [key] else [])"
  by (auto simp: put_bucket_def)

lemma sweep_max: "rl_max_buckets (sweep now rl) = rl_max_buckets rl"
  by (simp add: sweep_def)

lemma room_max: "rl_max_buckets (make_room key (sweep now rl)) = rl_max_buckets rl"
  by (auto simp: make_room_def sweep_def split: option.splits)

lemma limiter_check_ok:
  assumes "limiter_ok rl"
  shows "limiter_ok (snd (limiter_check F now key burst rl)) \<and>
    rl_max_buckets (snd (limiter_check F now key burst rl)) = rl_max_buckets rl"
proof -
  let ?rl = "make_room key (sweep now rl)"
  have room: "limiter_ok ?rl" "map_of (buckets ?rl) key = None \<longrightarrow> length (buckets ?rl) < rl_max_buckets ?rl"
    using make_room_ok [OF sweep_ok [OF assms, of now], of key] by (simp_all add: room_max sweep_max)
  have "limiter_ok (?rl\<lparr>buckets := put_bucket key b (buckets ?rl)\<rparr>)" for b
    using room put_bucket_keys [of key b "buckets ?rl"] length_map [of fst "put_bucket key b (buckets ?rl)"]
    by (auto simp: limiter_ok_def map_of_eq_None_iff split: if_splits)
  then show ?thesis by (simp add: limiter_check_def Let_def room_max)
qed

lemma charge_ok:
  "limiter_ok rl \<Longrightarrow> charge F c now key burst rl = (r, rl') \<Longrightarrow> limiter_ok rl' \<and> rl_max_buckets rl' = rl_max_buckets rl"
  using limiter_check_ok [of rl F now key "f_of_u32 F burst"] by (auto simp: charge_def split: if_splits)

lemma guard_ok:
  assumes "limiter_ok rl"
  shows "limiter_ok (snd (gateway_guard F to_str c tok req rl)) \<and>
    rl_max_buckets (snd (gateway_guard F to_str c tok req rl)) = rl_max_buckets rl"
proof -
  obtain r1 rl1 where one: "charge F c (gr_now_ip req) (peer_key (gr_peer req)) (ip_burst c) rl = (r1, rl1)" by fastforce
  note ok1 = charge_ok [OF assms one]
  show ?thesis
  proof (cases tok)
    case None
    then show ?thesis using one ok1 by (cases r1) (simp_all add: gateway_guard_def)
  next
    case (Some expected)
    obtain r2 rl2 where two: "charge F c (gr_now_account req) (account_key expected) (account_burst c) rl1 = (r2, rl2)" by fastforce
    show ?thesis
      using Some one two ok1 charge_ok [OF _ two] by (cases r1; cases r2) (simp_all add: gateway_guard_def)
  qed
qed

lemma guards_ok:
  "limiter_ok rl \<Longrightarrow> limiter_ok (fold (\<lambda>req rl. snd (gateway_guard F to_str c tok req rl)) reqs rl) \<and>
    rl_max_buckets (fold (\<lambda>req rl. snd (gateway_guard F to_str c tok req rl)) reqs rl) = rl_max_buckets rl"
proof (induction reqs arbitrary: rl)
  case (Cons req reqs)
  then show ?case using guard_ok [OF Cons.prems, of F to_str c tok req] by simp
qed simp

section \<open>A rejected request and the buckets of others\<close>

lemma map_of_filter_key: "map_of (filter (\<lambda>(j, _). j \<noteq> k) bs) i = (if i = k then None else map_of bs i)"
  by (induction bs) auto

lemma map_of_filter_sub: "distinct (map fst bs) \<Longrightarrow> map_of (filter P bs) i \<in> {None, map_of bs i}"
proof (induction bs)
  case (Cons b bs)
  then show ?case by (cases b) (auto simp: map_of_eq_None_iff rev_image_eqI)
qed simp

lemma put_bucket_other: "k \<noteq> key \<Longrightarrow> map_of (put_bucket key b bs) k = map_of bs k"
proof -
  assume "k \<noteq> key"
  moreover have "map_of (map (\<lambda>(j, x). (j, if j = key then b else x)) bs) k = map_of bs k" if "k \<noteq> key"
    using that by (induction bs) auto
  ultimately show ?thesis by (simp add: put_bucket_def map_add_def split: option.splits)
qed

lemma check_other:
  assumes "limiter_ok rl" "k \<noteq> key"
  shows "map_of (buckets (snd (limiter_check F now key burst rl))) k \<in> {None, map_of (buckets rl) k}"
proof -
  have "map_of (buckets (sweep now rl)) k \<in> {None, map_of (buckets rl) k}"
    using map_of_filter_sub [of "buckets rl"] assms(1) by (auto simp: sweep_def limiter_ok_def)
  moreover have "map_of (buckets (make_room key (sweep now rl))) k \<in> {None, map_of (buckets (sweep now rl)) k}"
    by (auto simp: make_room_def map_of_filter_key split: option.splits)
  moreover have "map_of (buckets (snd (limiter_check F now key burst rl))) k = map_of (buckets (make_room key (sweep now rl))) k"
    by (simp add: limiter_check_def Let_def put_bucket_other [OF assms(2)])
  ultimately show ?thesis by auto
qed

lemma strip_bearer: "strip_prefix p s = Some v \<longleftrightarrow> s = p @ v"
  by (auto simp: strip_prefix_def) (metis append_take_drop_id)

text \<open>What the HTTP library documents of \<open>to_str\<close>: it yields the header's own bytes, all of them visible.\<close>

definition to_str_ok :: "(string \<Rightarrow> string option) \<Rightarrow> bool" where
  "to_str_ok to_str \<longleftrightarrow> (\<forall>v s. to_str v = Some s \<longrightarrow> s = v \<and> CHR 0x00 \<notin> set s)"

lemma authorized_iff:
  assumes "to_str_ok to_str" "CHR 0x00 \<notin> set expected"
  shows "authorized to_str header expected \<longleftrightarrow>
    (header = Some (''Bearer '' @ expected) \<and> to_str (''Bearer '' @ expected) \<noteq> None)"
proof -
  have "authorized to_str header expected \<longleftrightarrow>
      (\<exists>v. Option.bind (Option.bind header to_str) (strip_prefix ''Bearer '') = Some v \<and> constant_time_eq v expected)"
    by (simp add: authorized_def split: option.splits)
  also have "\<dots> \<longleftrightarrow> (\<exists>v h. header = Some h \<and> to_str h = Some (''Bearer '' @ v) \<and> constant_time_eq v expected)"
    unfolding bind_eq_Some_conv strip_bearer by blast
  also have "\<dots> \<longleftrightarrow> (\<exists>h. header = Some h \<and> to_str h = Some (''Bearer '' @ expected))"
    using assms(1) constant_time_eq_iff [OF _ assms(2)] unfolding to_str_ok_def by fastforce
  also have "\<dots> \<longleftrightarrow> header = Some (''Bearer '' @ expected) \<and> to_str (''Bearer '' @ expected) \<noteq> None"
    using assms(1) unfolding to_str_ok_def by blast
  finally show ?thesis .
qed

section \<open>Properties\<close>

text \<open>
  C13. A guarded request reaches the handlers only with the configured bearer token: on tokens and
  headers without NUL bytes the comparison decides equality, so with rate limiting off the answer is
  \<open>Next\<close> exactly when the header is \<open>Bearer \<close> and the token, and with it on a request that is
  passed on carries that header. A request that is refused as unauthorized has charged its peer's
  bucket only: every other bucket is as it was or has been swept or evicted.
\<close>

theorem guard_requires_token:
  assumes "to_str_ok to_str" "CHR 0x00 \<notin> set expected" "limiter_ok rl"
  shows "(fst (gateway_guard F to_str c (Some expected) req rl) = Next \<longrightarrow> gr_authorization req = Some (''Bearer '' @ expected)) \<and>
    (\<not> rl_enabled c \<longrightarrow>
       gateway_guard F to_str c (Some expected) req rl =
         (if gr_authorization req = Some (''Bearer '' @ expected) \<and> to_str (''Bearer '' @ expected) \<noteq> None then Next
          else Unauthorized, rl)) \<and>
    (fst (gateway_guard F to_str c (Some expected) req rl) = Unauthorized \<and> k \<noteq> peer_key (gr_peer req) \<longrightarrow>
       map_of (buckets (snd (gateway_guard F to_str c (Some expected) req rl))) k \<in> {None, map_of (buckets rl) k})"
proof -
  note auth = authorized_iff [OF assms(1,2), where header = "gr_authorization req"]
  obtain r1 rl1 where one: "charge F c (gr_now_ip req) (peer_key (gr_peer req)) (ip_burst c) rl = (r1, rl1)" by fastforce
  have other: "map_of (buckets rl1) k \<in> {None, map_of (buckets rl) k}" if "k \<noteq> peer_key (gr_peer req)"
    using check_other [OF assms(3) that, of F "gr_now_ip req" "f_of_u32 F (ip_burst c)"] one by (auto simp: charge_def split: if_splits)
  obtain r2 rl2 where two: "charge F c (gr_now_account req) (account_key expected) (account_burst c) rl1 = (r2, rl2)" by fastforce
  show ?thesis
    using one two auth other
    by (cases r1; cases r2) (auto simp: gateway_guard_def rate_limited_response_def charge_def)
qed

text \<open>A limiter arithmetic for the witnesses: whole tokens, no refill.\<close>

definition whole_tokens :: "nat f64" where
  "whole_tokens =
     \<lparr>f_of_u32 = unat, f_secs = \<lambda>_. 0, f_plus = (+), f_minus = (-), f_times = (*), f_div = (div), f_min = min, f_max = max,
      f_ceil = id, f_one = 1, f_ge = (\<lambda>a b. b \<le> a), f_as_u64 = of_nat\<rparr>"

definition visible :: "string \<Rightarrow> string option" where
  "visible v = (if list_all is_ascii_graphic (filter (\<lambda>c. c \<noteq> CHR '' '') v) then Some v else None)"

lemma visible_ok: "to_str_ok visible"
  by (auto simp: to_str_ok_def visible_def list_all_iff is_ascii_graphic_def split: if_splits)

definition open_limit :: rate_limit_config where
  "open_limit = \<lparr>rl_enabled = False, ip_burst = 1, account_burst = 1, window = 1, max_buckets = 1\<rparr>"

definition token_request :: guard_request where
  "token_request = \<lparr>gr_peer = None, gr_authorization = Some ''Bearer t1'', gr_now_ip = 0, gr_now_account = 0\<rparr>"

lemma open_limiter: "limiter_ok (limiter_new open_limit 0)" "\<not> rl_enabled open_limit" "CHR 0x00 \<notin> set ''t1''"
  "gr_authorization token_request = Some (''Bearer '' @ ''t1'')" "visible (''Bearer '' @ ''t1'') \<noteq> None"
  by (simp_all add: limiter_ok_def limiter_new_def open_limit_def token_request_def visible_def is_ascii_graphic_def)

theorem guard_requires_token_witness:
  "gateway_guard whole_tokens visible open_limit (Some ''t1'') token_request (limiter_new open_limit 0) =
   (Next, limiter_new open_limit 0)"
  using guard_requires_token [OF visible_ok open_limiter(3,1), of whole_tokens open_limit token_request, THEN conjunct2, THEN conjunct1]
    open_limiter(2,4,5)
  by (simp only: simp_thms if_True not_False_eq_True)

text \<open>
  C28. The bucket table is bounded: with a configuration that passed validation, whatever requests
  arrive at whatever times, the limiter holds at most \<open>max_buckets\<close> buckets, one per key.
\<close>

theorem limiter_bounded:
  assumes "rate_limit_validate c = Inr ()"
  shows "let rl = fold (\<lambda>req rl. snd (gateway_guard F to_str c tok req rl)) reqs (limiter_new c now)
    in length (buckets rl) \<le> max_buckets c \<and> distinct (map fst (buckets rl))"
proof -
  have "limiter_ok (limiter_new c now :: 'a rate_limiter)"
    using assms by (auto simp: limiter_ok_def limiter_new_def rate_limit_validate_def split: if_splits)
  from guards_ok [OF this, of F to_str c tok reqs] show ?thesis by (simp add: limiter_ok_def limiter_new_def Let_def)
qed

definition small_limit :: rate_limit_config where
  "small_limit = \<lparr>rl_enabled = True, ip_burst = 1, account_burst = 1, window = 1, max_buckets = 1\<rparr>"

lemma small_limit_valid: "rate_limit_validate small_limit = Inr ()" "max_buckets small_limit = 1"
  by (simp_all add: rate_limit_validate_def small_limit_def)

theorem limiter_bounded_witness:
  "let rl = fold (\<lambda>req rl. snd (gateway_guard whole_tokens visible small_limit None req rl))
        [\<lparr>gr_peer = Some ''10.0.0.1'', gr_authorization = None, gr_now_ip = 1, gr_now_account = 1\<rparr>,
         \<lparr>gr_peer = Some ''10.0.0.2'', gr_authorization = None, gr_now_ip = 1, gr_now_account = 1\<rparr>]
        (limiter_new small_limit 0)
   in length (buckets rl) \<le> 1 \<and> distinct (map fst (buckets rl))"
  by (rule limiter_bounded [OF small_limit_valid(1), unfolded small_limit_valid(2)])

end
