(* ===== verification/Provider_Steps.thy ===== *)
theory Provider_Steps
  imports Content_Hash Run_Store
begin

section \<open>Durable provider steps (\<open>durable_provider.rs\<close>, \<open>runtime/agent_host.rs\<close>)\<close>

text \<open>
  What a model provider answered is turned into canonical blocks, checked, stored as message
  content with metadata, and later replayed instead of calling the provider again. This theory
  holds the conversions in both directions and the classification of provider errors.

  Parameters: \<open>to_text\<close> is serde's text of a JSON value and \<open>from_str\<close> its parser. \<open>block_json\<close> is the
  derived serialisation of a content block.
\<close>

subsection \<open>Typed failures and their classification\<close>

definition NON_RETRYABLE_ERROR_CODES :: "string list" where
  "NON_RETRYABLE_ERROR_CODES =
     [''setup'', ''config'', ''adapter_unavailable'', ''malformed_payload'', ''scripted_exhausted'', ''cancelled'',
      ''deadline_elapsed'', ''adapter_failed'', ''unsupported_parallel'', ''unsupported_task'',
      ''provider_step_persist_failed'', ''interrupted_provider'', ''corrupt_provider_step'', ''run_terminal'',
      ''missing_tool_parent'']"

definition TRANSIENT_ERROR_CODES :: "string list" where
  "TRANSIENT_ERROR_CODES = [''unavailable'', ''timeout'', ''rate_limited'', ''overloaded'', ''transport'']"

definition error_is_retryable_code :: "string \<Rightarrow> bool" where
  "error_is_retryable_code code =
     (if code \<in> set NON_RETRYABLE_ERROR_CODES then False else code \<in> set TRANSIENT_ERROR_CODES)"

definition str_or :: "string \<Rightarrow> string \<Rightarrow> json \<Rightarrow> string" where
  "str_or dflt k v = (case Option.bind (jget k v) as_str of Some s \<Rightarrow> s | None \<Rightarrow> dflt)"

definition provider_error_is_retryable :: "json \<Rightarrow> bool" where
  "provider_error_is_retryable error =
     (let code = str_or [] ''code'' error in
      if code \<in> set NON_RETRYABLE_ERROR_CODES then False
      else
        (case Option.bind (jget ''retryable'' error) as_bool of
           Some flag \<Rightarrow> flag
         | None \<Rightarrow>
             if error_is_retryable_code code then True
             else
               (let status = (case Option.bind (jget ''status'' error) as_u64 of Some n \<Rightarrow> n | None \<Rightarrow> 0);
                    error_type = str_or [] ''type'' error
                in status \<in> {408, 429} \<or> (500 \<le> status \<and> status \<le> 599) \<or>
                   error_type \<in> {''rate_limit_error'', ''overloaded_error'', ''server_error'', ''timeout_error''})))"

definition error_type_for :: "string \<Rightarrow> string" where
  "error_type_for code =
     (if code = ''malformed_payload'' then ''malformed_payload''
      else if code = ''cancelled'' \<or> code = ''deadline_elapsed'' then ''invalid_request_error''
      else ''api_error'')"

definition typed_fail :: "string \<Rightarrow> string \<Rightarrow> json" where
  "typed_fail code message =
     jobject [(''ok'', JBool False), (''response'', jobject []),
       (''error'', jobject
          [(''status'', JNumber (PosInt 0)), (''type'', JString (error_type_for code)), (''code'', JString code),
           (''message'', JString message), (''param'', JString []), (''request_id'', JString []),
           (''retryable'', JBool (error_is_retryable_code code))])]"

definition map_commit_error :: "event_commit_error \<Rightarrow> json" where
  "map_commit_error error =
     (case error of
        Terminal \<Rightarrow> typed_fail ''run_terminal'' ''run is terminal''
      | Cancelled \<Rightarrow> typed_fail ''cancelled'' ''run was cancelled''
      | PersistFailed _ \<Rightarrow> typed_fail ''provider_step_persist_failed'' ''failed to persist provider step''
      | MissingParent \<Rightarrow> typed_fail ''missing_tool_parent'' ''tool result parent tool_call is missing''
      | Corrupt _ \<Rightarrow> typed_fail ''corrupt_provider_step'' ''durable provider state is corrupt'')"

subsection \<open>The request fingerprint\<close>

definition SAFE_REQUEST_KEYS :: "string list" where
  "SAFE_REQUEST_KEYS = [''model'', ''provider'', ''stream'', ''max_output_tokens'', ''tool_choice'']"

definition safe_request :: "json \<Rightarrow> json" where
  "safe_request request =
     (case as_object request of
        None \<Rightarrow> jobject []
      | Some m \<Rightarrow>
          jobject (concat (map (\<lambda>k. case map_of m k of Some v \<Rightarrow> [(k, v)] | None \<Rightarrow> []) SAFE_REQUEST_KEYS)))"

definition canonical_provider_request_fingerprint :: "(json \<Rightarrow> string) \<Rightarrow> json \<Rightarrow> string" where
  "canonical_provider_request_fingerprint to_text request = ''sha256:'' @ registry_sha256_hex (to_text (safe_request request))"

subsection \<open>Strict decoding of content blocks\<close>

definition parse_strict_tool_arguments ::
  "(json \<Rightarrow> string) \<Rightarrow> (string \<Rightarrow> json option) \<Rightarrow> json_map \<Rightarrow> (event_commit_error, string option \<times> json option) result" where
  "parse_strict_tool_arguments to_text from_str m =
     (case map_of m ''arguments_json'' of
        Some raw \<Rightarrow>
          (case as_str raw of
             None \<Rightarrow> Inl (Corrupt ''tool_call arguments_json must be a string'')
           | Some t \<Rightarrow>
               (case from_str t of
                  None \<Rightarrow> Inl (Corrupt ''tool_call arguments_json is not JSON'')
                | Some parsed \<Rightarrow>
                    if \<not> is_object parsed then Inl (Corrupt ''tool_call arguments must be a JSON object'')
                    else Inr (Some t, None)))
      | None \<Rightarrow>
          (case map_of m ''arguments'' of
             Some args \<Rightarrow>
               if \<not> is_object args then Inl (Corrupt ''tool_call arguments must be a JSON object'')
               else Inr (Some (to_text args), None)
           | None \<Rightarrow> Inl (Corrupt ''tool_call arguments_json is missing'')))"

definition or_get :: "json option \<Rightarrow> json option \<Rightarrow> json option" where
  "or_get a b = (case a of Some v \<Rightarrow> Some v | None \<Rightarrow> b)"

definition unwrap_str :: "json option \<Rightarrow> string" where
  "unwrap_str v = (case Option.bind v as_str of Some s \<Rightarrow> s | None \<Rightarrow> [])"

definition decode_tool_call_strict ::
  "(json \<Rightarrow> string) \<Rightarrow> (string \<Rightarrow> json option) \<Rightarrow> json_map \<Rightarrow> (event_commit_error, llm_content_block) result" where
  "decode_tool_call_strict to_text from_str m =
     (let i = unwrap_str (or_get (map_of m ''tool_call_id'') (map_of m ''id'')); nm = unwrap_str (map_of m ''name'');
          truncated = Option.bind (map_of m ''truncated'') as_bool
      in if i = [] \<or> nm = [] then Inl (Corrupt ''tool_call missing id or name'')
         else if truncated = Some True then Inl (Corrupt ''tool_call arguments are truncated'')
         else
           (case parse_strict_tool_arguments to_text from_str m of
              Inl e \<Rightarrow> Inl e
            | Inr (args_json, args) \<Rightarrow>
                Inr (default_block\<lparr>block_type := ''tool_call'', bl_tool_call_id := Some i, bl_name := Some nm,
                  arguments_json := args_json, arguments := args, bl_truncated := truncated\<rparr>)))"

definition decode_provider_block_strict ::
  "(json \<Rightarrow> string) \<Rightarrow> (string \<Rightarrow> json option) \<Rightarrow> json \<Rightarrow> (event_commit_error, llm_content_block) result" where
  "decode_provider_block_strict to_text from_str v =
     (case as_object v of
        None \<Rightarrow> Inl (Corrupt ''provider content block must be an object'')
      | Some m \<Rightarrow>
          if m = [] then Inl (Corrupt ''provider content block must not be empty'')
          else
            (case Option.bind (map_of m ''type'') as_str of
               None \<Rightarrow> Inl (Corrupt ''provider content block is missing type'')
             | Some ty \<Rightarrow>
                 if ty = ''text'' then
                   (case Option.bind (map_of m ''text'') as_str of
                      None \<Rightarrow> Inl (Corrupt ''text block requires string text'')
                    | Some t \<Rightarrow>
                        Inr (default_block\<lparr>block_type := ''text'', bl_text := Some t,
                          bl_truncated := Option.bind (map_of m ''truncated'') as_bool\<rparr>))
                 else if ty = ''tool_call'' then decode_tool_call_strict to_text from_str m
                 else Inl (Corrupt (''unknown provider content block type: '' @ ty))))"

definition decode_provider_blocks_strict ::
  "(json \<Rightarrow> string) \<Rightarrow> (string \<Rightarrow> json option) \<Rightarrow> json \<Rightarrow> (event_commit_error, llm_content_block list) result" where
  "decode_provider_blocks_strict to_text from_str content =
     (case as_array content of
        None \<Rightarrow> Inl (Corrupt ''provider content must be a canonical block array'')
      | Some items \<Rightarrow> result_map (decode_provider_block_strict to_text from_str) items)"

subsection \<open>The canonical step of a response\<close>

record usage =
  input_tokens :: u64
  output_tokens :: u64
  total_tokens :: u64

record provider_step =
  ps_blocks :: "llm_content_block list"
  ps_usage :: "usage option"
  ps_finish_reason :: "string option"
  ps_model :: "string option"
  ps_provider :: "string option"
  ps_truncated :: "bool option"
  ps_reasoning :: "json option"

definition u64_or_0 :: "string \<Rightarrow> json \<Rightarrow> u64" where
  "u64_or_0 k v = (case Option.bind (jget k v) as_u64 of Some n \<Rightarrow> n | None \<Rightarrow> 0)"

definition parse_usage :: "json \<Rightarrow> usage option" where
  "parse_usage v =
     (if \<not> is_object v then None
      else Some \<lparr>input_tokens = u64_or_0 ''input_tokens'' v, output_tokens = u64_or_0 ''output_tokens'' v,
        total_tokens = u64_or_0 ''total_tokens'' v\<rparr>)"

definition tool_call_block :: "(json \<Rightarrow> string) \<Rightarrow> (string \<Rightarrow> json option) \<Rightarrow> json \<Rightarrow> llm_content_block" where
  "tool_call_block to_text from_str call =
     (let args_json = (case Option.bind (jget ''arguments_json'' call) as_str of
                         Some raw \<Rightarrow> Some raw
                       | None \<Rightarrow> map_option to_text (jget ''arguments'' call));
          args = (case jget ''arguments'' call of Some a \<Rightarrow> Some a | None \<Rightarrow> Option.bind args_json from_str)
      in default_block\<lparr>block_type := ''tool_call'',
           bl_tool_call_id := Option.bind (or_get (jget ''id'' call) (jget ''tool_call_id'' call)) as_str,
           bl_name := Option.bind (jget ''name'' call) as_str,
           arguments_json := args_json, arguments := args, bl_truncated := Option.bind (jget ''truncated'' call) as_bool\<rparr>)"

definition plain_text :: "string \<Rightarrow> llm_content_block" where
  "plain_text t = default_block\<lparr>block_type := ''text'', bl_text := Some t\<rparr>"

definition filter_nonempty :: "string option \<Rightarrow> string option" where
  "filter_nonempty s = (case s of Some [] \<Rightarrow> None | _ \<Rightarrow> s)"

definition canonical_blocks ::
  "(json \<Rightarrow> string) \<Rightarrow> (string \<Rightarrow> json option) \<Rightarrow> json \<Rightarrow> llm_content_block list \<Rightarrow> llm_content_block list" where
  "canonical_blocks to_text from_str response blocks =
     (let t = Option.bind (jget ''text'' response) as_str;
          blocks = (if blocks = [] \<and> t \<noteq> None \<and> t \<noteq> Some [] then [plain_text (the t)] else blocks);
          calls = Option.bind (jget ''tool_calls'' response) as_array;
          blocks = (if \<not> list_ex (\<lambda>b. block_type b = ''tool_call'') blocks \<and> calls \<noteq> None
                    then blocks @ map (tool_call_block to_text from_str) (the calls) else blocks)
      in if blocks = [] then [plain_text (case t of Some s \<Rightarrow> s | None \<Rightarrow> [])] else blocks)"

definition finish_of :: "json \<Rightarrow> json option" where
  "finish_of response = or_get (jget ''stop_reason'' response) (jget ''finish_reason'' response)"

definition canonical_provider_step ::
  "(json \<Rightarrow> string) \<Rightarrow> (string \<Rightarrow> json option) \<Rightarrow> json \<Rightarrow> json \<Rightarrow> (json, provider_step) result" where
  "canonical_provider_step to_text from_str response request =
     (case (case jget ''content'' response of
              Some content \<Rightarrow> decode_provider_blocks_strict to_text from_str content
            | None \<Rightarrow> Inr []) of
        Inl error \<Rightarrow> Inl (map_commit_error error)
      | Inr blocks \<Rightarrow>
          Inr \<lparr>ps_blocks = canonical_blocks to_text from_str response blocks,
               ps_usage = Option.bind (jget ''usage'' response) parse_usage,
               ps_finish_reason = Option.bind (finish_of response) as_str,
               ps_model = filter_nonempty (Option.bind (or_get (jget ''model'' response) (jget ''model'' request)) as_str),
               ps_provider = filter_nonempty (Option.bind (or_get (jget ''provider'' response) (jget ''provider'' request)) as_str),
               ps_truncated = Option.bind (jget ''truncated'' response) as_bool,
               ps_reasoning = (case jget ''reasoning'' response of
                   Some v \<Rightarrow> if v = JNull \<or> v = JString [] then None else Some v
                 | None \<Rightarrow> None)\<rparr>)"

definition usage_malformed :: "json \<Rightarrow> bool" where
  "usage_malformed u \<longleftrightarrow>
     list_ex (\<lambda>k. case jget k u of Some v \<Rightarrow> v \<noteq> JNull \<and> as_u64 v = None | None \<Rightarrow> False)
       [''input_tokens'', ''output_tokens'', ''total_tokens'']"

definition canonical_provider_step_from_envelope ::
  "(json \<Rightarrow> string) \<Rightarrow> (string \<Rightarrow> json option) \<Rightarrow> json \<Rightarrow> json \<Rightarrow> (json, provider_step) result" where
  "canonical_provider_step_from_envelope to_text from_str envelope request =
     (case jget ''response'' envelope of
        None \<Rightarrow> Inl (typed_fail ''malformed_payload'' ''provider response is missing'')
      | Some response \<Rightarrow>
          if \<not> is_object response then Inl (typed_fail ''malformed_payload'' ''provider response must be an object'')
          else if (case finish_of response of Some f \<Rightarrow> \<not> is_string f \<and> f \<noteq> JNull | None \<Rightarrow> False)
          then Inl (typed_fail ''malformed_payload'' ''finish_reason must be a string'')
          else
            (case jget ''usage'' response of
               Some u \<Rightarrow>
                 if \<not> is_object u then Inl (typed_fail ''malformed_payload'' ''usage must be an object'')
                 else if usage_malformed u
                 then Inl (typed_fail ''malformed_payload'' ''usage fields must be non-negative integers'')
                 else if (case jget ''tool_calls'' response of Some c \<Rightarrow> \<not> is_array c \<and> c \<noteq> JNull | None \<Rightarrow> False)
                 then Inl (typed_fail ''malformed_payload'' ''tool_calls must be an array'')
                 else canonical_provider_step to_text from_str response request
             | None \<Rightarrow>
                 if (case jget ''tool_calls'' response of Some c \<Rightarrow> \<not> is_array c \<and> c \<noteq> JNull | None \<Rightarrow> False)
                 then Inl (typed_fail ''malformed_payload'' ''tool_calls must be an array'')
                 else canonical_provider_step to_text from_str response request))"

subsection \<open>The checks before a commit\<close>



subsection \<open>What is stored\<close>





subsection \<open>Replay\<close>





section \<open>Replay returns what was committed\<close>



lemma default_block_fields [simp]:
  "bl_text default_block = None" "bl_content default_block = None" "bl_result default_block = None"
  "bl_error default_block = None" "artifact default_block = None" "is_error default_block = None"
  "bl_tool_call_id default_block = None" "bl_name default_block = None" "arguments_json default_block = None"
  "arguments default_block = None"
  by (simp_all add: default_block_def)







































section \<open>Final failures and the fingerprint\<close>

text \<open>
  A failure that the service itself reports for a provider step is never retried, and the
  fingerprint of a request depends on its safe keys only.
\<close>

lemma typed_fail_error:
  "jget ''error'' (typed_fail code message) = Some
     (jobject [(''status'', JNumber (PosInt 0)), (''type'', JString (error_type_for code)), (''code'', JString code),
       (''message'', JString message), (''param'', JString []), (''request_id'', JString []),
       (''retryable'', JBool (error_is_retryable_code code))])"
  unfolding typed_fail_def by (subst jget_jobject) simp_all

lemma typed_fail_final:
  assumes "code \<in> set NON_RETRYABLE_ERROR_CODES" "jget ''error'' (typed_fail code message) = Some err"
  shows "\<not> provider_error_is_retryable err"
proof -
  have "jget ''code'' err = Some (JString code)"
    using assms(2) unfolding typed_fail_error by (auto simp: jget_jobject)
  then show ?thesis using assms(1) by (simp add: provider_error_is_retryable_def str_or_def)
qed

lemma commit_failures_final: "jget ''error'' (map_commit_error e) = Some err \<Longrightarrow> \<not> provider_error_is_retryable err"
  by (cases e) (simp_all add: map_commit_error_def, (erule typed_fail_final [rotated], simp add: NON_RETRYABLE_ERROR_CODES_def)+)

lemma fingerprint_safe:
  assumes "\<And>k. k \<in> set SAFE_REQUEST_KEYS \<Longrightarrow> map_of m k = map_of m' k"
  shows "canonical_provider_request_fingerprint to_text (JObject m) = canonical_provider_request_fingerprint to_text (JObject m')"
proof -
  have "map (\<lambda>k. case map_of m k of Some v \<Rightarrow> [(k, v)] | None \<Rightarrow> []) SAFE_REQUEST_KEYS =
      map (\<lambda>k. case map_of m' k of Some v \<Rightarrow> [(k, v)] | None \<Rightarrow> []) SAFE_REQUEST_KEYS"
    using assms by (intro map_cong) auto
  then show ?thesis by (simp only: canonical_provider_request_fingerprint_def safe_request_def as_object.simps option.case)
qed

end
